theory Spec2Isabelle
  imports Main "HOL-Library.AList" "HOL-Library.Sublist"
begin

section \<open>State synchronisation of start-openclaw.sh\<close>

text \<open>
  The development embeds the three parts of \<^verbatim>\<open>start-openclaw.sh\<close> that move state
  between the container and the R2 bucket: the config restore at boot, the one-time
  prefix migration, and one iteration of the background sync loop.

  The bucket and the container's filesystem are association lists from keys (paths) to
  objects (nodes); \<^const>\<open>map_of\<close> reads them. The commands of rclone are modelled by
  their documented effect on these two stores. Every transferring command may fail: an
  oracle \<open>ok\<close> says which commands succeed, and a command that fails is modelled as
  failing before it transfers anything. The script never looks at the exit status of a
  transfer (\<^verbatim>\<open>|| true\<close>, \<^verbatim>\<open>|| echo WARNING\<close>, or nothing at all, with
  \<^verbatim>\<open>set -e\<close> removed), so the status is only recorded in the event log. The two
  read commands (\<^verbatim>\<open>rclone cat\<close>, \<^verbatim>\<open>rclone ls\<close>) may fail as well: their error
  output goes to \<^verbatim>\<open>/dev/null\<close> and the pipe into \<^verbatim>\<open>grep\<close> has no
  \<^verbatim>\<open>pipefail\<close>, so a read that fails prints nothing, just as the
  read of an absent object does. The event log holds the transfers and the local writes, not the reads.

  All three parts run only when \<^verbatim>\<open>r2_configured\<close> holds; the model is of a configured
  bucket. The migration and the loop are background jobs of the script; each is modelled
  on its own, as a sequence of steps, and their interleaving is not. The lines appended
  to the log file are left out: nothing in the script reads them.
\<close>

subsection \<open>Strings\<close>

definition newline :: char where
  "newline = CHR 0x0A"

fun strip_prefix :: "string \<Rightarrow> string \<Rightarrow> string option" where
  "strip_prefix [] s = Some s"
| "strip_prefix (p # ps) [] = None"
| "strip_prefix (p # ps) (c # s) = (if p = c then strip_prefix ps s else None)"

text \<open>
  \<^verbatim>\<open>grep -q PATTERN\<close> for the patterns of the script (\<^verbatim>\<open>migrated\<close>,
  \<^verbatim>\<open>openclaw.json\<close>, \<^verbatim>\<open>clawdbot.json\<close>): ordinary characters and the dot, which
  matches any character of the line. The text is searched at every position; a match
  never crosses a line end.
\<close>

fun re_prefix :: "string \<Rightarrow> string \<Rightarrow> bool" where
  "re_prefix [] s = True"
| "re_prefix (p # ps) [] = False"
| "re_prefix (p # ps) (c # s) =
     (c \<noteq> newline \<and> (p = CHR ''.'' \<or> p = c) \<and> re_prefix ps s)"

fun grep_q :: "string \<Rightarrow> string \<Rightarrow> bool" where
  "grep_q pat [] = re_prefix pat []"
| "grep_q pat (c # s) = (re_prefix pat (c # s) \<or> grep_q pat s)"

text \<open>The suffixes of a path that start right after a slash; the last one is the file name.\<close>

fun after_slashes :: "string \<Rightarrow> string list" where
  "after_slashes [] = []"
| "after_slashes (c # s) = (if c = CHR ''/'' then s # after_slashes s else after_slashes s)"

definition basename :: "string \<Rightarrow> string" where
  "basename p = last (p # after_slashes p)"

definition unlines :: "string list \<Rightarrow> string" where
  "unlines ls = concat (map (\<lambda>l. l @ [newline]) ls)"

definition wc_l :: "string \<Rightarrow> nat" where
  "wc_l s = length (filter (\<lambda>c. c = newline) s)"

subsection \<open>Glob patterns\<close>

text \<open>
  The patterns of the script use literal characters, \<^verbatim>\<open>*\<close> and \<^verbatim>\<open>**\<close> only.
  In an rclone filter \<^verbatim>\<open>*\<close> matches within one path element and \<^verbatim>\<open>**\<close> matches
  across elements; a pattern with no leading slash matches at the end of the path,
  starting at the beginning of a path element. In \<^verbatim>\<open>find -path\<close> the star matches
  every character, the slash included, and the pattern is matched against the whole path.
\<close>

datatype tok = Lit char | Star | StarStar

fun tokens :: "string \<Rightarrow> tok list" where
  "tokens [] = []"
| "tokens [c] = (if c = CHR ''*'' then [Star] else [Lit c])"
| "tokens (c # d # cs) =
     (if c = CHR ''*'' then (if d = CHR ''*'' then StarStar # tokens cs else Star # tokens (d # cs))
      else Lit c # tokens (d # cs))"

fun gmatch :: "tok list \<Rightarrow> string \<Rightarrow> bool" where
  "gmatch [] s = (s = [])"
| "gmatch (Lit c # ts) [] = False"
| "gmatch (Lit c # ts) (d # s) = (c = d \<and> gmatch ts s)"
| "gmatch (Star # ts) [] = gmatch ts []"
| "gmatch (Star # ts) (d # s) = (gmatch ts (d # s) \<or> (d \<noteq> CHR ''/'' \<and> gmatch (Star # ts) s))"
| "gmatch (StarStar # ts) [] = gmatch ts []"
| "gmatch (StarStar # ts) (d # s) = (gmatch ts (d # s) \<or> gmatch (StarStar # ts) s)"

definition rclone_glob :: "string \<Rightarrow> string \<Rightarrow> bool" where
  "rclone_glob pat rel =
     (if prefix ''/'' pat then gmatch (tokens (tl pat)) rel
      else list_ex (gmatch (tokens pat)) (rel # after_slashes rel))"

definition excluded :: "string list \<Rightarrow> string \<Rightarrow> bool" where
  "excluded excl rel = list_ex (\<lambda>pat. rclone_glob pat rel) excl"

definition fnmatch :: "string \<Rightarrow> string \<Rightarrow> bool" where
  "fnmatch pat s = gmatch (map (\<lambda>c. if c = CHR ''*'' then StarStar else Lit c) pat) s"

subsection \<open>The bucket and the filesystem\<close>

text \<open>An object of the bucket is its modification time and its bytes.\<close>

type_synonym obj = "nat \<times> string"
type_synonym bucket = "(string \<times> obj) list"

datatype node = File nat string | Dir nat

type_synonym fs = "(string \<times> node) list"

fun mtime_of :: "node \<Rightarrow> nat" where
  "mtime_of (File m c) = m"
| "mtime_of (Dir m) = m"

definition is_file :: "fs \<Rightarrow> string \<Rightarrow> bool" where
  "is_file l p = (case map_of l p of Some (File m c) \<Rightarrow> True | _ \<Rightarrow> False)"

definition is_dir :: "fs \<Rightarrow> string \<Rightarrow> bool" where
  "is_dir l p = (case map_of l p of Some (Dir m) \<Rightarrow> True | _ \<Rightarrow> False)"

definition put_all :: "('k \<times> 'v) list \<Rightarrow> ('k \<times> 'v) list \<Rightarrow> ('k \<times> 'v) list" where
  "put_all ups s = fold (\<lambda>(k, v). AList.update k v) ups s"

text \<open>\<^verbatim>\<open>touch p\<close>: bump the modification time, creating an empty file when there is none.\<close>

definition touch :: "nat \<Rightarrow> string \<Rightarrow> fs \<Rightarrow> fs" where
  "touch now p l =
     (case map_of l p of
        None \<Rightarrow> AList.update p (File now []) l
      | Some (File m c) \<Rightarrow> AList.update p (File now c) l
      | Some (Dir m) \<Rightarrow> AList.update p (Dir now) l)"

text \<open>\<^verbatim>\<open>... > p\<close>: the redirection fails on a directory and replaces anything else.\<close>

definition write_file :: "nat \<Rightarrow> string \<Rightarrow> string \<Rightarrow> fs \<Rightarrow> fs" where
  "write_file now p bytes l =
     (if is_dir l p then l else AList.update p (File now bytes) l)"

definition read_file :: "fs \<Rightarrow> string \<Rightarrow> string option" where
  "read_file l p = (case map_of l p of Some (File m c) \<Rightarrow> Some c | _ \<Rightarrow> None)"

text \<open>
  \<^verbatim>\<open>mv src dst\<close> of a regular file: into \<open>dst\<close> when that is a directory, onto
  \<open>dst\<close> otherwise; it fails when the target is a directory.
\<close>

definition mv :: "string \<Rightarrow> string \<Rightarrow> fs \<Rightarrow> fs" where
  "mv src dst l =
     (case map_of l src of
        Some (File m c) \<Rightarrow>
          (let target = (if is_dir l dst then dst @ ''/'' @ basename src else dst)
           in if is_dir l target then l
              else AList.update target (File m c) (AList.delete src l))
      | _ \<Rightarrow> l)"

subsection \<open>The rclone commands\<close>

text \<open>The commands of rclone that the script runs, as the oracle sees them.\<close>

datatype rcmd =
    Cat string
  | Ls string
  | CopyRemote string string
  | Purge string
  | Rcat string string
  | CopyDown string string "string list"
  | SyncUp string string "string list"

text \<open>
  \<^verbatim>\<open>rclone cat key 2>/dev/null\<close>: the bytes of the object; nothing when there is
  none, and nothing when the read fails.
\<close>

definition rclone_cat :: "(rcmd \<Rightarrow> bool) \<Rightarrow> bucket \<Rightarrow> string \<Rightarrow> string" where
  "rclone_cat ok r key =
     (if ok (Cat key)
      then (case map_of r key of Some (m, bytes) \<Rightarrow> bytes | None \<Rightarrow> [])
      else [])"

text \<open>
  \<^verbatim>\<open>rclone ls path 2>/dev/null\<close>: the names it lists, one line each: the object at
  the path itself by its file name, the objects below it by their relative paths; no line
  when the listing fails. (The size column of a line is blanks and digits, which the
  patterns of the script cannot match.)
\<close>

definition rclone_ls :: "(rcmd \<Rightarrow> bool) \<Rightarrow> bucket \<Rightarrow> string \<Rightarrow> string list" where
  "rclone_ls ok r p =
     (if ok (Ls p)
      then List.map_filter
             (\<lambda>(k, v). if k = p then Some (basename p) else strip_prefix (p @ ''/'') k) r
      else [])"

text \<open>\<^verbatim>\<open>rclone copy src: dst:\<close> inside the bucket: every object below \<open>src\<close> is written
  below \<open>dst\<close>; nothing is deleted.\<close>

definition copies :: "string \<Rightarrow> string \<Rightarrow> bucket \<Rightarrow> bucket" where
  "copies src dst r =
     List.map_filter
       (\<lambda>(k, v). case strip_prefix src k of None \<Rightarrow> None
                  | Some rel \<Rightarrow> Some (dst @ rel, v)) r"

definition copy_remote :: "string \<Rightarrow> string \<Rightarrow> bucket \<Rightarrow> bucket" where
  "copy_remote src dst r = put_all (copies src dst r) r"

text \<open>\<^verbatim>\<open>rclone purge prefix\<close>: every object below the prefix is deleted.\<close>

definition purge :: "string \<Rightarrow> bucket \<Rightarrow> bucket" where
  "purge pre r = filter (\<lambda>(k, v). strip_prefix pre k = None) r"

text \<open>\<^verbatim>\<open>... | rclone rcat key\<close>: the object is written with the bytes of standard input.\<close>

definition rcat :: "string \<Rightarrow> nat \<Rightarrow> string \<Rightarrow> bucket \<Rightarrow> bucket" where
  "rcat key now bytes r = AList.update key (now, bytes) r"

text \<open>
  \<^verbatim>\<open>rclone copy src: dir\<close> from the bucket into the container: every object below
  \<open>src\<close> that no exclude pattern matches is written to the file of the same relative
  path, with the object's modification time. Nothing is deleted, and a directory is never
  replaced by a file.
\<close>

definition downloads :: "string \<Rightarrow> string \<Rightarrow> string list \<Rightarrow> bucket \<Rightarrow> fs \<Rightarrow> fs" where
  "downloads src dir excl r l =
     List.map_filter
       (\<lambda>(k, (m, c)). case strip_prefix src k of None \<Rightarrow> None
          | Some rel \<Rightarrow>
              if rel = [] \<or> excluded excl rel \<or> is_dir l (dir @ rel) then None
              else Some (dir @ rel, File m c)) r"

definition copy_down :: "string \<Rightarrow> string \<Rightarrow> string list \<Rightarrow> bucket \<Rightarrow> fs \<Rightarrow> fs" where
  "copy_down src dir excl r l = put_all (downloads src dir excl r l) l"

text \<open>
  \<^verbatim>\<open>rclone sync dir dst:\<close> from the container into the bucket: every regular file
  below \<open>dir\<close> that no exclude pattern matches is written to the object of the same
  relative path, and every object below \<open>dst\<close> with no such file is deleted, unless an
  exclude pattern matches it (without \<^verbatim>\<open>--delete-excluded\<close> an excluded path is
  neither written nor deleted).
\<close>

definition uploads :: "string \<Rightarrow> string \<Rightarrow> string list \<Rightarrow> fs \<Rightarrow> bucket" where
  "uploads dir dst excl l =
     List.map_filter
       (\<lambda>(p, n). case n of Dir m \<Rightarrow> None
          | File m c \<Rightarrow>
              (case strip_prefix dir p of None \<Rightarrow> None
               | Some rel \<Rightarrow>
                   if rel = [] \<or> excluded excl rel then None else Some (dst @ rel, (m, c)))) l"

definition sync_up :: "string \<Rightarrow> string \<Rightarrow> string list \<Rightarrow> fs \<Rightarrow> bucket \<Rightarrow> bucket" where
  "sync_up dir dst excl l r =
     put_all (uploads dir dst excl l)
       (filter (\<lambda>(k, v). case strip_prefix dst k of None \<Rightarrow> True
                  | Some rel \<Rightarrow> rel = [] \<or> excluded excl rel \<or> is_file l (dir @ rel)) r)"

datatype event =
    Rclone rcmd bool
  | Detect nat
  | Write string
  | Touch string
  | Move string string

record world =
  remote :: bucket
  files :: fs
  events :: "event list"

fun effect :: "nat \<Rightarrow> rcmd \<Rightarrow> world \<Rightarrow> world" where
  "effect now (Cat key) w = w"
| "effect now (Ls p) w = w"
| "effect now (CopyRemote src dst) w = w\<lparr>remote := copy_remote src dst (remote w)\<rparr>"
| "effect now (Purge pre) w = w\<lparr>remote := purge pre (remote w)\<rparr>"
| "effect now (Rcat key bytes) w = w\<lparr>remote := rcat key now bytes (remote w)\<rparr>"
| "effect now (CopyDown src dir excl) w =
     w\<lparr>files := copy_down src dir excl (remote w) (files w)\<rparr>"
| "effect now (SyncUp dir dst excl) w =
     w\<lparr>remote := sync_up dir dst excl (files w) (remote w)\<rparr>"

text \<open>One rclone transfer: it is logged with its exit status, and takes effect when it succeeds.\<close>

definition rclone :: "(rcmd \<Rightarrow> bool) \<Rightarrow> nat \<Rightarrow> rcmd \<Rightarrow> world \<Rightarrow> world" where
  "rclone ok now c w =
     (if ok c then effect now c w else w)\<lparr>events := events w @ [Rclone c (ok c)]\<rparr>"

subsection \<open>The paths of the script\<close>

definition CONFIG_DIR :: string where
  "CONFIG_DIR = ''/root/.openclaw''"

definition CONFIG_FILE :: string where
  "CONFIG_FILE = CONFIG_DIR @ ''/openclaw.json''"

definition WORKSPACE_DIR :: string where
  "WORKSPACE_DIR = ''/root/clawd''"

definition SKILLS_DIR :: string where
  "SKILLS_DIR = ''/root/clawd/skills''"

definition LAST_SYNC_FILE :: string where
  "LAST_SYNC_FILE = ''/tmp/.last-sync''"

definition MARKER :: string where
  "MARKER = ''/tmp/.last-sync-marker''"

definition CHANGED :: string where
  "CHANGED = ''/tmp/.changed-files''"

definition MIGRATED :: string where
  "MIGRATED = ''openclaw/.migrated-prefixes''"

lemmas script_paths =
  CONFIG_DIR_def CONFIG_FILE_def WORKSPACE_DIR_def SKILLS_DIR_def LAST_SYNC_FILE_def
  MARKER_def CHANGED_def MIGRATED_def

subsection \<open>Restore of the config at boot (lines 67 to 80)\<close>

definition restore_excludes :: "string list" where
  "restore_excludes = [''workspace/**'', ''skills/**'']"

text \<open>Lines 74 to 76: the legacy config file takes the current name when that is free.\<close>

definition legacy_rename :: "world \<Rightarrow> world" where
  "legacy_rename w =
     (if is_file (files w) (CONFIG_DIR @ ''/clawdbot.json'') \<and> \<not> is_file (files w) CONFIG_FILE
      then w\<lparr>files := mv (CONFIG_DIR @ ''/clawdbot.json'') CONFIG_FILE (files w),
             events := events w @ [Move (CONFIG_DIR @ ''/clawdbot.json'') CONFIG_FILE]\<rparr>
      else w)"

definition restore_legacy :: "(rcmd \<Rightarrow> bool) \<Rightarrow> nat \<Rightarrow> world \<Rightarrow> world" where
  "restore_legacy ok now w =
     legacy_rename (rclone ok now (CopyDown ''clawdbot/'' (CONFIG_DIR @ ''/'') restore_excludes) w)"

definition restore_config :: "(rcmd \<Rightarrow> bool) \<Rightarrow> nat \<Rightarrow> world \<Rightarrow> world" where
  "restore_config ok now w =
     (if list_ex (grep_q ''openclaw.json'') (rclone_ls ok (remote w) ''openclaw/openclaw.json'')
      then rclone ok now (CopyDown ''openclaw/'' (CONFIG_DIR @ ''/'') restore_excludes) w
      else if list_ex (grep_q ''clawdbot.json'') (rclone_ls ok (remote w) ''clawdbot/clawdbot.json'')
      then restore_legacy ok now w
      else w)"

subsection \<open>One-time prefix migration (lines 104 to 115)\<close>

text \<open>
  The block of lines 107 to 114, run when the marker check of line 104 finds no
  completion tag in what \<^verbatim>\<open>rclone cat\<close> prints. \<open>stamp\<close>
  is what \<^verbatim>\<open>date -Iseconds\<close> prints. The block runs in the background; it is modelled
  on its own, as a sequence of five commands on the bucket.
\<close>

definition migration_block :: "(rcmd \<Rightarrow> bool) \<Rightarrow> nat \<Rightarrow> string \<Rightarrow> world \<Rightarrow> world" where
  "migration_block ok now stamp w =
     (let w1 = rclone ok now (CopyRemote ''workspace/'' ''openclaw/workspace/'') w;
          w2 = rclone ok now (CopyRemote ''skills/'' ''openclaw/skills/'') w1;
          w3 = rclone ok now (Purge ''workspace/'') w2;
          w4 = rclone ok now (Purge ''skills/'') w3
      in rclone ok now (Rcat MIGRATED (''migrated '' @ stamp @ [newline])) w4)"

definition migrate :: "(rcmd \<Rightarrow> bool) \<Rightarrow> nat \<Rightarrow> string \<Rightarrow> world \<Rightarrow> world" where
  "migrate ok now stamp w =
     (if \<not> grep_q ''migrated'' (rclone_cat ok (remote w) MIGRATED)
      then migration_block ok now stamp w
      else w)"

subsection \<open>One iteration of the sync loop (lines 354 to 398)\<close>

definition workspace_excludes :: "string list" where
  "workspace_excludes = [''skills/**'', ''.git/**'', ''node_modules/**'']"

definition config_excludes :: "string list" where
  "config_excludes =
     [''*.lock'', ''*.log'', ''*.tmp'', ''.git/**'', ''workspace/**'', ''skills/**'']"

text \<open>Lines 361 to 368: the additive merge from the bucket into the two trees.\<close>

definition pull :: "(rcmd \<Rightarrow> bool) \<Rightarrow> nat \<Rightarrow> world \<Rightarrow> world" where
  "pull ok now w =
     (let w1 = (if is_dir (files w) WORKSPACE_DIR
                then rclone ok now
                       (CopyDown ''openclaw/workspace/'' (WORKSPACE_DIR @ ''/'') workspace_excludes) w
                else w)
      in if is_dir (files w1) SKILLS_DIR
         then rclone ok now (CopyDown ''openclaw/skills/'' (SKILLS_DIR @ ''/'') []) w1
         else w1)"

text \<open>
  \<^verbatim>\<open>find start -newer ref [-not -path pat]... -type f -printf '%P\n'\<close>: the regular
  files below \<open>start\<close> whose modification time is later than that of \<open>ref\<close> and whose
  path matches none of the patterns, as paths relative to \<open>start\<close>, in the order of the
  traversal. The tests apply to the start point itself: a start point that is a regular
  file is printed, as the empty relative path, when it passes them. With no start point
  or no reference file find prints nothing (its error goes to \<^verbatim>\<open>/dev/null\<close>).
\<close>

definition find_newer :: "fs \<Rightarrow> string \<Rightarrow> string \<Rightarrow> string list \<Rightarrow> string list" where
  "find_newer l start ref not_paths =
     (case map_of l ref of
        None \<Rightarrow> []
      | Some n \<Rightarrow>
          (case map_of l start of
             None \<Rightarrow> []
           | Some (File m c) \<Rightarrow>
               if mtime_of n < m \<and> \<not> list_ex (\<lambda>pat. fnmatch pat start) not_paths
               then [[]] else []
           | Some (Dir d) \<Rightarrow>
               List.map_filter
                 (\<lambda>(p, e). case e of Dir m \<Rightarrow> None
                    | File m c \<Rightarrow>
                        (case strip_prefix (start @ ''/'') p of None \<Rightarrow> None
                         | Some rel \<Rightarrow>
                             if mtime_of n < m \<and> \<not> list_ex (\<lambda>pat. fnmatch pat p) not_paths
                             then Some rel else None)) l))"

text \<open>Lines 372 to 378: the two searches whose output goes to the file of changes.\<close>

definition changed_files :: "fs \<Rightarrow> string list" where
  "changed_files l =
     find_newer l CONFIG_DIR MARKER []
     @ find_newer l WORKSPACE_DIR MARKER [''*/node_modules/*'', ''*/.git/*'']"

text \<open>Line 380: \<^verbatim>\<open>wc -l < "$CHANGED" 2>/dev/null || echo 0\<close>.\<close>

definition COUNT :: "fs \<Rightarrow> nat" where
  "COUNT l = (case read_file l CHANGED of Some bytes \<Rightarrow> wc_l bytes | None \<Rightarrow> 0)"

definition detect :: "nat \<Rightarrow> world \<Rightarrow> world" where
  "detect now w =
     (let l = write_file now CHANGED (unlines (changed_files (files w))) (files w)
      in w\<lparr>files := l, events := events w @ [Detect (COUNT l)]\<rparr>)"

text \<open>Lines 384 to 395: the three mirrors, the record of the last sync, the marker.\<close>

definition push_config :: "(rcmd \<Rightarrow> bool) \<Rightarrow> nat \<Rightarrow> world \<Rightarrow> world" where
  "push_config ok now w =
     rclone ok now (SyncUp (CONFIG_DIR @ ''/'') ''openclaw/'' config_excludes) w"

definition push :: "(rcmd \<Rightarrow> bool) \<Rightarrow> nat \<Rightarrow> string \<Rightarrow> world \<Rightarrow> world" where
  "push ok now stamp w =
     (let w1 = push_config ok now w;
          w2 = (if is_dir (files w1) WORKSPACE_DIR
                then rclone ok now
                       (SyncUp (WORKSPACE_DIR @ ''/'') ''openclaw/workspace/'' workspace_excludes) w1
                else w1);
          w3 = (if is_dir (files w2) SKILLS_DIR
                then rclone ok now (SyncUp (SKILLS_DIR @ ''/'') ''openclaw/skills/'' []) w2
                else w2);
          w4 = w3\<lparr>files := write_file now LAST_SYNC_FILE (stamp @ [newline]) (files w3),
                  events := events w3 @ [Write LAST_SYNC_FILE]\<rparr>
      in w4\<lparr>files := touch now MARKER (files w4), events := events w4 @ [Touch MARKER]\<rparr>)"

text \<open>
  The body of the loop after \<^verbatim>\<open>sleep 30\<close>. \<open>now\<close> is the clock reading that the
  writes of the iteration are stamped with.
\<close>

definition cycle :: "(rcmd \<Rightarrow> bool) \<Rightarrow> nat \<Rightarrow> string \<Rightarrow> world \<Rightarrow> world" where
  "cycle ok now stamp w =
     (let w1 = detect now (pull ok now w)
      in if COUNT (files w1) > 0 then push ok now stamp w1 else w1)"

text \<open>
  Line 352 and the loop: the marker is touched once, then the iterations follow one
  another. The loop of the script never ends; a list of ticks (an oracle, a clock reading
  and a time stamp each) gives the iterations run so far.
\<close>

definition sync_loop :: "nat \<Rightarrow> ((rcmd \<Rightarrow> bool) \<times> nat \<times> string) list \<Rightarrow> world \<Rightarrow> world" where
  "sync_loop start ticks w =
     fold (\<lambda>(ok, now, stamp). cycle ok now stamp) ticks
       (w\<lparr>files := touch start MARKER (files w), events := events w @ [Touch MARKER]\<rparr>)"

subsection \<open>Notions used in the statements\<close>

text \<open>The five transfers of the loop, by name.\<close>

abbreviation pull_workspace :: rcmd where
  "pull_workspace \<equiv> CopyDown ''openclaw/workspace/'' (WORKSPACE_DIR @ ''/'') workspace_excludes"

abbreviation pull_skills :: rcmd where
  "pull_skills \<equiv> CopyDown ''openclaw/skills/'' (SKILLS_DIR @ ''/'') []"

abbreviation mirror_config :: rcmd where
  "mirror_config \<equiv> SyncUp (CONFIG_DIR @ ''/'') ''openclaw/'' config_excludes"

abbreviation mirror_workspace :: rcmd where
  "mirror_workspace \<equiv> SyncUp (WORKSPACE_DIR @ ''/'') ''openclaw/workspace/'' workspace_excludes"

abbreviation mirror_skills :: rcmd where
  "mirror_skills \<equiv> SyncUp (SKILLS_DIR @ ''/'') ''openclaw/skills/'' []"

text \<open>A mirror is an \<^verbatim>\<open>rclone sync\<close> towards the bucket.\<close>

fun is_mirror :: "event \<Rightarrow> bool" where
  "is_mirror (Rclone (SyncUp dir dst excl) status) = True"
| "is_mirror e = False"

text \<open>
  A local path is absent remotely when neither of the two pulls has an object for it: the
  workspace pull reads below \<^verbatim>\<open>openclaw/workspace/\<close>, the skills pull below
  \<^verbatim>\<open>openclaw/skills/\<close>.
\<close>

definition absent_remotely :: "bucket \<Rightarrow> string \<Rightarrow> bool" where
  "absent_remotely r p =
     ((case strip_prefix (WORKSPACE_DIR @ ''/'') p of None \<Rightarrow> True
       | Some rel \<Rightarrow> map_of r (''openclaw/workspace/'' @ rel) = None) \<and>
      (case strip_prefix (SKILLS_DIR @ ''/'') p of None \<Rightarrow> True
       | Some rel \<Rightarrow> map_of r (''openclaw/skills/'' @ rel) = None))"

subsection \<open>Environments and stores used as examples\<close>

definition all_ok :: "rcmd \<Rightarrow> bool" where
  "all_ok c = True"

fun only_rcat_ok :: "rcmd \<Rightarrow> bool" where
  "only_rcat_ok (Rcat key bytes) = True"
| "only_rcat_ok c = False"

fun read_fails :: "rcmd \<Rightarrow> bool" where
  "read_fails (Cat key) = False"
| "read_fails (Ls p) = False"
| "read_fails c = True"

fun copies_fail :: "rcmd \<Rightarrow> bool" where
  "copies_fail (CopyRemote src dst) = False"
| "copies_fail c = True"

fun rcat_fails :: "rcmd \<Rightarrow> bool" where
  "rcat_fails (Rcat key bytes) = False"
| "rcat_fails c = True"

definition legacy_world :: world where
  "legacy_world =
     \<lparr>remote = [(''workspace/notes.md'', (1, ''n'')), (''skills/s.md'', (2, ''s''))],
      files = [], events = []\<rparr>"

definition migrated_world :: world where
  "migrated_world =
     \<lparr>remote = [(''openclaw/workspace/notes.md'', (1, ''n'')),
                (''openclaw/.migrated-prefixes'', (3, ''migrated 2026-01-01T00:00:00+00:00''))],
      files = [], events = []\<rparr>"

definition config_world :: world where
  "config_world =
     \<lparr>remote = [(''openclaw/workspace/a.md'', (1, ''a'')), (''openclaw/old.log'', (1, ''o'')),
                (''workspace/legacy.md'', (1, ''l''))],
      files = [(''/root/.openclaw'', Dir 1),
               (''/root/.openclaw/openclaw.json'', File 5 ''{}''),
               (''/root/.openclaw/gateway.log'', File 6 ''log'')],
      events = []\<rparr>"

definition both_configs_world :: world where
  "both_configs_world =
     \<lparr>remote = [(''clawdbot/clawdbot.json'', (2, ''legacy''))],
      files = [(''/root/.openclaw'', Dir 1),
               (''/root/.openclaw/openclaw.json'', File 5 ''current'')],
      events = []\<rparr>"

definition legacy_copied_world :: world where
  "legacy_copied_world =
     \<lparr>remote = [(''clawdbot/clawdbot.json'', (2, ''legacy''))],
      files = [(''/root/.openclaw'', Dir 1),
               (''/root/.openclaw/clawdbot.json'', File 2 ''legacy'')],
      events = []\<rparr>"

definition pull_world :: world where
  "pull_world =
     \<lparr>remote = [(''openclaw/workspace/uploaded.md'', (4, ''up''))],
      files = [(''/root/clawd'', Dir 1),
               (''/root/clawd/local.md'', File 3 ''mine'')],
      events = []\<rparr>"

definition workspace_change_world :: world where
  "workspace_change_world =
     \<lparr>remote = [],
      files = [(''/root/.openclaw'', Dir 1),
               (''/root/clawd'', Dir 1),
               (''/root/clawd/skills'', Dir 1),
               (''/root/clawd/notes.md'', File 5 ''x''),
               (''/tmp/.last-sync-marker'', File 3 [])],
      events = []\<rparr>"

definition idle_world :: world where
  "idle_world =
     \<lparr>remote = [],
      files = [(''/root/.openclaw'', Dir 1),
               (''/root/clawd'', Dir 1),
               (''/root/clawd/notes.md'', File 5 ''x''),
               (''/tmp/.last-sync-marker'', File 7 [])],
      events = []\<rparr>"

definition file_root_files :: fs where
  "file_root_files =
     [(''/root/.openclaw'', Dir 1),
      (''/root/clawd'', File 5 ''not a directory''),
      (''/tmp/.last-sync-marker'', File 3 [])]"

definition log_change_files :: fs where
  "log_change_files =
     [(''/root/.openclaw'', Dir 1),
      (''/root/.openclaw/gateway.log'', File 5 ''l''),
      (''/root/.openclaw/.git/HEAD'', File 6 ''ref''),
      (''/tmp/.last-sync-marker'', File 3 [])]"

section \<open>Strings and stores: basic facts\<close>

lemma strip_prefix_Some: "strip_prefix p s = Some r \<longleftrightarrow> s = p @ r"
  by (induction p s rule: strip_prefix.induct) auto

lemma strip_prefix_append [simp]: "strip_prefix p (p @ r) = Some r"
  by (simp add: strip_prefix_Some)

lemma strip_prefix_None: "strip_prefix p s = None \<longleftrightarrow> \<not> prefix p s"
  by (induction p s rule: strip_prefix.induct) auto

lemma re_prefix_plain:
  "newline \<notin> set pat \<Longrightarrow> CHR ''.'' \<notin> set pat \<Longrightarrow> re_prefix pat s = prefix pat s"
  by (induction pat s rule: re_prefix.induct) auto

lemma grep_q_plain:
  "newline \<notin> set pat \<Longrightarrow> CHR ''.'' \<notin> set pat \<Longrightarrow> grep_q pat s = sublist pat s"
  by (induction s) (auto simp: re_prefix_plain sublist_Cons_right)

lemma grep_q_migrated: "grep_q ''migrated'' s = sublist ''migrated'' s"
  by (rule grep_q_plain) (simp_all add: newline_def)

lemma tag_written: "grep_q ''migrated'' (''migrated '' @ stamp @ [newline])"
  by (simp add: newline_def)

lemma events_rclone [simp]: "events (rclone ok now c w) = events w @ [Rclone c (ok c)]"
  by (simp add: rclone_def)

lemma files_rclone_remote [simp]:
  "files (rclone ok now (CopyRemote a b) w) = files w"
  "files (rclone ok now (Purge a) w) = files w"
  "files (rclone ok now (Rcat a c) w) = files w"
  "files (rclone ok now (SyncUp a b e) w) = files w"
  by (simp_all add: rclone_def)

lemma remote_rclone_down [simp]:
  "remote (rclone ok now (CopyDown a b e) w) = remote w"
  by (simp add: rclone_def)

lemma migration_block_events:
  "events (migration_block ok now stamp w) =
     events w @
     [Rclone (CopyRemote ''workspace/'' ''openclaw/workspace/'')
        (ok (CopyRemote ''workspace/'' ''openclaw/workspace/'')),
      Rclone (CopyRemote ''skills/'' ''openclaw/skills/'')
        (ok (CopyRemote ''skills/'' ''openclaw/skills/'')),
      Rclone (Purge ''workspace/'') (ok (Purge ''workspace/'')),
      Rclone (Purge ''skills/'') (ok (Purge ''skills/'')),
      Rclone (Rcat MIGRATED (''migrated '' @ stamp @ [newline]))
        (ok (Rcat MIGRATED (''migrated '' @ stamp @ [newline])))]"
  by (simp add: migration_block_def Let_def)

lemma migration_block_marker:
  "ok (Rcat MIGRATED (''migrated '' @ stamp @ [newline])) \<Longrightarrow>
   map_of (remote (migration_block ok now stamp w)) MIGRATED =
     Some (now, ''migrated '' @ stamp @ [newline])"
  by (simp add: migration_block_def Let_def rclone_def rcat_def update_conv')


lemma put_all_Nil [simp]: "put_all [] s = s"
  by (simp add: put_all_def)

lemma put_all_Cons [simp]: "put_all ((k, v) # ups) s = put_all ups (AList.update k v s)"
  by (simp add: put_all_def)

lemma put_all_notin: "k \<notin> fst ` set ups \<Longrightarrow> map_of (put_all ups s) k = map_of s k"
  by (induction ups arbitrary: s) (auto simp: update_conv')

lemma put_all_keeps: "map_of s k \<noteq> None \<Longrightarrow> map_of (put_all ups s) k \<noteq> None"
  by (induction ups arbitrary: s) (auto simp: update_conv')

lemma put_all_in:
  "distinct (map fst ups) \<Longrightarrow> (k, v) \<in> set ups \<Longrightarrow> map_of (put_all ups s) k = Some v"
proof (induction ups arbitrary: s)
  case Nil
  then show ?case by simp
next
  case (Cons u ups)
  obtain k' v' where u: "u = (k', v')" by (cases u)
  show ?case
  proof (cases "(k, v) \<in> set ups")
    case True
    with Cons u show ?thesis by simp
  next
    case False
    with Cons.prems u have kv: "k' = k" "v' = v" and "k \<notin> fst ` set ups" by auto
    then show ?thesis by (simp add: u put_all_notin update_conv')
  qed
qed

lemma distinct_put_all:
  "distinct (map fst s) \<Longrightarrow> distinct (map fst (put_all ups s))"
  by (induction ups arbitrary: s) (auto simp: distinct_update)

lemma map_of_purge: "map_of (purge pre r) k = (if prefix pre k then None else map_of r k)"
  by (induction r) (auto simp: purge_def strip_prefix_None)

lemma distinct_purge: "distinct (map fst r) \<Longrightarrow> distinct (map fst (purge pre r))"
  by (simp add: purge_def distinct_map_filter)

lemma set_copies:
  "set (copies src dst r) = {(dst @ rel, v) | rel v. (src @ rel, v) \<in> set r}"
  by (induction r) (auto simp: copies_def List.map_filter_simps strip_prefix_Some split: option.splits)

lemma distinct_copies:
  "distinct (map fst r) \<Longrightarrow> distinct (map fst (copies src dst r))"
proof (induction r)
  case Nil
  then show ?case by (simp add: copies_def List.map_filter_simps)
next
  case (Cons a r)
  obtain k v where a: "a = (k, v)" by (cases a)
  have IH: "distinct (map fst (copies src dst r))" using Cons by simp
  show ?case
  proof (cases "strip_prefix src k")
    case None
    then show ?thesis using IH by (simp add: copies_def a List.map_filter_simps)
  next
    case (Some rel)
    then have k: "k = src @ rel" by (simp add: strip_prefix_Some)
    have "dst @ rel \<notin> fst ` set (copies src dst r)"
    proof
      assume "dst @ rel \<in> fst ` set (copies src dst r)"
      then obtain v' where "(src @ rel, v') \<in> set r" by (auto simp: set_copies)
      then have "k \<in> fst ` set r" using k by force
      with Cons.prems a show False by simp
    qed
    with IH Some show ?thesis
      using copies_def by (simp add: a List.map_filter_simps) 
  qed
qed

lemma copy_remote_copied:
  assumes "distinct (map fst r)" "map_of r (src @ rel) = Some v"
  shows "map_of (copy_remote src dst r) (dst @ rel) = Some v"
proof -
  have "(dst @ rel, v) \<in> set (copies src dst r)"
    using map_of_SomeD[OF assms(2)] by (cases v) (auto simp: set_copies)
  with distinct_copies[OF assms(1)] show ?thesis
    unfolding copy_remote_def by (rule put_all_in)
qed

lemma copy_remote_other:
  "strip_prefix dst k = None \<Longrightarrow> map_of (copy_remote src dst r) k = map_of r k"
  unfolding copy_remote_def
  by (rule put_all_notin) (auto simp: set_copies strip_prefix_None)

lemma copy_remote_keeps:
  "map_of r k \<noteq> None \<Longrightarrow> map_of (copy_remote src dst r) k \<noteq> None"
  unfolding copy_remote_def by (rule put_all_keeps)

lemma distinct_copy_remote:
  "distinct (map fst r) \<Longrightarrow> distinct (map fst (copy_remote src dst r))"
  by (simp add: copy_remote_def distinct_put_all)

subsection \<open>Glob patterns: what the patterns of the script match\<close>

lemma gmatch_StarStar: "gmatch (StarStar # ts) s \<longleftrightarrow> (\<exists>a b. s = a @ b \<and> gmatch ts b)"
proof (induction s)
  case Nil
  then show ?case by simp
next
  case (Cons d s)
  show ?case
  proof
    assume "gmatch (StarStar # ts) (d # s)"
    then consider "gmatch ts (d # s)" | "gmatch (StarStar # ts) s" by auto
    then show "\<exists>a b. d # s = a @ b \<and> gmatch ts b"
    proof cases
      case 1
      then have "d # s = [] @ (d # s) \<and> gmatch ts (d # s)" by simp
      then show ?thesis by blast
    next
      case 2
      with Cons obtain a b where "s = a @ b" "gmatch ts b" by blast
      then have "d # s = (d # a) @ b \<and> gmatch ts b" by simp
      then show ?thesis by blast
    qed
  next
    assume "\<exists>a b. d # s = a @ b \<and> gmatch ts b"
    then obtain a b where ab: "d # s = a @ b" "gmatch ts b" by blast
    show "gmatch (StarStar # ts) (d # s)"
    proof (cases a)
      case Nil
      with ab have "gmatch ts (d # s)" by simp
      then show ?thesis by simp
    next
      case (Cons x a')
      with ab have "s = a' @ b" by simp
      with ab(2) Cons.IH show ?thesis by auto
    qed
  qed
qed

lemma gmatch_StarStar_only [simp]: "gmatch [StarStar] s"
  by (simp add: gmatch_StarStar)

lemma gmatch_Lits: "gmatch (map Lit l @ ts) s \<longleftrightarrow> (\<exists>b. s = l @ b \<and> gmatch ts b)"
proof (induction l arbitrary: s)
  case Nil
  then show ?case by simp
next
  case (Cons c l)
  then show ?case by (cases s) auto
qed

lemma gmatch_Star_element:
  "CHR ''/'' \<notin> set a \<Longrightarrow> gmatch ts s \<Longrightarrow> gmatch (Star # ts) (a @ s)"
proof (induction a)
  case Nil
  then show ?case by (cases s) auto
next
  case (Cons c a)
  then show ?case by auto
qed

lemma element_suffix:
  "\<exists>a. CHR ''/'' \<notin> set a \<and> a @ s \<in> set ((x @ s) # after_slashes (x @ s))"
proof (induction x)
  case Nil
  have "CHR ''/'' \<notin> set [] \<and> [] @ s \<in> set (([] @ s) # after_slashes ([] @ s))" by simp
  then show ?case by blast
next
  case (Cons c x)
  then obtain a where a: "CHR ''/'' \<notin> set a" "a @ s \<in> set ((x @ s) # after_slashes (x @ s))"
    by blast
  show ?case
  proof (cases "a @ s \<in> set (after_slashes (x @ s))")
    case True
    with a(1) show ?thesis by auto
  next
    case False
    with a(2) have eq: "a @ s = x @ s" by simp
    show ?thesis
    proof (cases "c = CHR ''/''")
      case True
      with eq a(1) show ?thesis by auto
    next
      case False
      with a(1) eq have "CHR ''/'' \<notin> set (c # a) \<and>
        (c # a) @ s \<in> set (((c # x) @ s) # after_slashes ((c # x) @ s))" by simp
      then show ?thesis by blast
    qed
  qed
qed

lemma tokens_config [simp]:
  "tokens ''*.lock'' = [Star, Lit CHR ''.'', Lit CHR ''l'', Lit CHR ''o'', Lit CHR ''c'', Lit CHR ''k'']"
  "tokens ''*.log'' = [Star, Lit CHR ''.'', Lit CHR ''l'', Lit CHR ''o'', Lit CHR ''g'']"
  "tokens ''*.tmp'' = [Star, Lit CHR ''.'', Lit CHR ''t'', Lit CHR ''m'', Lit CHR ''p'']"
  by simp_all

text \<open>A pattern \<open>*ext\<close> matches every path whose file name ends with \<open>ext\<close>.\<close>

lemma rclone_glob_extension:
  assumes "tokens pat = Star # map Lit ext" "\<not> prefix ''/'' pat"
  shows "rclone_glob pat (x @ ext)"
proof -
  obtain a where a: "CHR ''/'' \<notin> set a" "a @ ext \<in> set ((x @ ext) # after_slashes (x @ ext))"
    using element_suffix by blast
  have "gmatch (map Lit ext) ext"
    using gmatch_Lits [of ext "[]" ext] by simp
  with a(1) have "gmatch (tokens pat) (a @ ext)"
    unfolding assms(1) by (rule gmatch_Star_element)
  with a(2) show ?thesis
    using assms(2) by (auto simp: rclone_glob_def list_ex_iff)
qed

lemma excluded_temp_lock_log:
  "suffix ''.lock'' rel \<or> suffix ''.log'' rel \<or> suffix ''.tmp'' rel \<Longrightarrow>
   excluded config_excludes rel"
proof -
  assume "suffix ''.lock'' rel \<or> suffix ''.log'' rel \<or> suffix ''.tmp'' rel"
  then consider x where "rel = x @ ''.lock''" | x where "rel = x @ ''.log''"
    | x where "rel = x @ ''.tmp''"
    by (auto simp: suffix_def)
  then show ?thesis
  proof cases
    case 1
    have "rclone_glob ''*.lock'' (x @ ''.lock'')"
      by (rule rclone_glob_extension) simp_all
    with 1 show ?thesis by (simp add: excluded_def config_excludes_def)
  next
    case 2
    have "rclone_glob ''*.log'' (x @ ''.log'')"
      by (rule rclone_glob_extension) simp_all
    with 2 show ?thesis by (simp add: excluded_def config_excludes_def)
  next
    case 3
    have "rclone_glob ''*.tmp'' (x @ ''.tmp'')"
      by (rule rclone_glob_extension) simp_all
    with 3 show ?thesis by (simp add: excluded_def config_excludes_def)
  qed
qed

lemma rclone_glob_subtree:
  "rclone_glob ''workspace/**'' (''workspace/'' @ rel)"
  "rclone_glob ''skills/**'' (''skills/'' @ rel)"
  by (simp_all add: rclone_glob_def)

lemma excluded_subtrees:
  "excluded config_excludes (''workspace/'' @ rel)"
  "excluded config_excludes (''skills/'' @ rel)"
  "excluded workspace_excludes (''skills/'' @ rel)"
  "excluded restore_excludes (''workspace/'' @ rel)"
  "excluded restore_excludes (''skills/'' @ rel)"
  using rclone_glob_subtree [of rel]
  by (simp_all add: excluded_def config_excludes_def workspace_excludes_def restore_excludes_def)

lemma fnmatch_contains:
  "fnmatch (''*'' @ l @ ''*'') p \<longleftrightarrow> sublist l p" if "CHR ''*'' \<notin> set l"
proof -
  have m: "map (\<lambda>c. if c = CHR ''*'' then StarStar else Lit c) l = map Lit l"
    using that by (induction l) auto
  show ?thesis
    by (auto simp: fnmatch_def m gmatch_StarStar gmatch_Lits sublist_def)
qed

lemma fnmatch_git: "fnmatch ''*/.git/*'' p \<longleftrightarrow> sublist ''/.git/'' p"
  using fnmatch_contains [of "''/.git/''" p] by simp

lemma fnmatch_node_modules: "fnmatch ''*/node_modules/*'' p \<longleftrightarrow> sublist ''/node_modules/'' p"
  using fnmatch_contains [of "''/node_modules/''" p] by simp

subsection \<open>Transfers and local writes\<close>

lemma put_all_cases:
  "map_of (put_all ups s) k = Some v \<Longrightarrow> (k, v) \<in> set ups \<or> map_of s k = Some v"
proof (induction ups arbitrary: s)
  case Nil
  then show ?case by simp
next
  case (Cons u ups)
  obtain k' v' where u: "u = (k', v')" by (cases u)
  from Cons.prems have "map_of (put_all ups (AList.update k' v' s)) k = Some v"
    by (simp add: u)
  then have "(k, v) \<in> set ups \<or> map_of (AList.update k' v' s) k = Some v"
    by (rule Cons.IH)
  then show ?case
    by (auto simp: u update_conv' split: if_splits)
qed

lemma map_of_put_all:
  "map_of (put_all ups s) = map_of s ++ map_of (rev ups)"
proof (induction ups arbitrary: s)
  case Nil
  then show ?case by simp
next
  case (Cons u ups)
  obtain k v where u: "u = (k, v)" by (cases u)
  show ?case
    by (simp add: u Cons.IH update_conv' fun_eq_iff map_add_def split: option.splits)
qed

lemma map_of_filter_key:
  "map_of (filter (\<lambda>(k, v). P k) r) k = (if P k then map_of r k else None)"
  by (induction r) auto

lemma in_map_filter:
  "y \<in> set (List.map_filter f xs) \<longleftrightarrow> (\<exists>x \<in> set xs. f x = Some y)"
  by (induction xs) (auto simp: List.map_filter_simps split: option.splits)

lemma in_downloads:
  "(p, n) \<in> set (downloads src dir excl r l) \<longleftrightarrow>
     (\<exists>rel m c. p = dir @ rel \<and> n = File m c \<and> (src @ rel, (m, c)) \<in> set r \<and>
        rel \<noteq> [] \<and> \<not> excluded excl rel \<and> \<not> is_dir l (dir @ rel))"
proof
  assume "(p, n) \<in> set (downloads src dir excl r l)"
  then obtain k m c where x: "(k, (m, c)) \<in> set r"
    and f: "(case strip_prefix src k of None \<Rightarrow> None
             | Some rel \<Rightarrow>
                 if rel = [] \<or> excluded excl rel \<or> is_dir l (dir @ rel) then None
                 else Some (dir @ rel, File m c)) = Some (p, n)"
    unfolding downloads_def in_map_filter by auto
  from f obtain rel where rel: "strip_prefix src k = Some rel"
    by (cases "strip_prefix src k") auto
  with f have "rel \<noteq> []" "\<not> excluded excl rel" "\<not> is_dir l (dir @ rel)"
    "p = dir @ rel" "n = File m c"
    by (auto split: if_splits)
  moreover from rel x have "(src @ rel, (m, c)) \<in> set r"
    by (simp add: strip_prefix_Some)
  ultimately show "\<exists>rel m c. p = dir @ rel \<and> n = File m c \<and> (src @ rel, (m, c)) \<in> set r \<and>
        rel \<noteq> [] \<and> \<not> excluded excl rel \<and> \<not> is_dir l (dir @ rel)"
    by blast
next
  assume "\<exists>rel m c. p = dir @ rel \<and> n = File m c \<and> (src @ rel, (m, c)) \<in> set r \<and>
        rel \<noteq> [] \<and> \<not> excluded excl rel \<and> \<not> is_dir l (dir @ rel)"
  then obtain rel m c where h: "p = dir @ rel" "n = File m c" "(src @ rel, (m, c)) \<in> set r"
    "rel \<noteq> []" "\<not> excluded excl rel" "\<not> is_dir l (dir @ rel)"
    by blast
  show "(p, n) \<in> set (downloads src dir excl r l)"
    unfolding downloads_def in_map_filter
    by (rule bexI [OF _ h(3)]) (simp add: h)
qed

lemma downloads_cong:
  assumes "is_dir l = is_dir l'"
  shows "downloads src dir excl r l = downloads src dir excl r l'"
  unfolding downloads_def assms ..

lemma is_dir_copy_down [simp]: "is_dir (copy_down src dir excl r l) p = is_dir l p"
proof (cases "is_dir l p")
  case True
  then have "p \<notin> fst ` set (downloads src dir excl r l)"
    by (force simp: in_downloads)
  then have "map_of (copy_down src dir excl r l) p = map_of l p"
    unfolding copy_down_def by (rule put_all_notin)
  then show ?thesis by (simp add: is_dir_def)
next
  case False
  have "\<not> is_dir (copy_down src dir excl r l) p"
  proof
    assume "is_dir (copy_down src dir excl r l) p"
    then obtain m where "map_of (copy_down src dir excl r l) p = Some (Dir m)"
      by (auto simp: is_dir_def split: option.splits node.splits)
    then have "(p, Dir m) \<in> set (downloads src dir excl r l) \<or> map_of l p = Some (Dir m)"
      unfolding copy_down_def by (rule put_all_cases)
    with False show False by (auto simp: in_downloads is_dir_def)
  qed
  with False show ?thesis by simp
qed

lemma is_file_copy_down: "is_file l p \<Longrightarrow> is_file (copy_down src dir excl r l) p"
proof -
  assume f: "is_file l p"
  then have "map_of l p \<noteq> None" by (auto simp: is_file_def split: option.splits)
  then have "map_of (copy_down src dir excl r l) p \<noteq> None"
    unfolding copy_down_def by (rule put_all_keeps)
  moreover have "\<not> is_dir l p"
    using f by (auto simp: is_file_def is_dir_def split: option.splits node.splits)
  then have "\<not> is_dir (copy_down src dir excl r l) p"
    by simp
  ultimately show ?thesis
    by (auto simp: is_file_def is_dir_def split: option.splits node.splits)
qed

lemma copy_down_keeps:
  "map_of l p \<noteq> None \<Longrightarrow> map_of (copy_down src dir excl r l) p \<noteq> None"
  unfolding copy_down_def by (rule put_all_keeps)

lemma copy_down_outside:
  "\<not> prefix dir p \<Longrightarrow> map_of (copy_down src dir excl r l) p = map_of l p"
  unfolding copy_down_def by (rule put_all_notin) (auto simp: in_downloads)

lemma copy_down_excluded:
  "excluded excl rel \<Longrightarrow> map_of (copy_down src dir excl r l) (dir @ rel) = map_of l (dir @ rel)"
  unfolding copy_down_def by (rule put_all_notin) (auto simp: in_downloads)

lemma copy_down_absent:
  "map_of r (src @ rel) = None \<Longrightarrow>
   map_of (copy_down src dir excl r l) (dir @ rel) = map_of l (dir @ rel)"
  unfolding copy_down_def
  by (rule put_all_notin) (force simp: in_downloads map_of_eq_None_iff)

lemma in_uploads:
  "(k, v) \<in> set (uploads dir dst excl l) \<longleftrightarrow>
     (\<exists>rel m c. k = dst @ rel \<and> v = (m, c) \<and> (dir @ rel, File m c) \<in> set l \<and>
        rel \<noteq> [] \<and> \<not> excluded excl rel)"
proof
  assume "(k, v) \<in> set (uploads dir dst excl l)"
  then obtain p n where x: "(p, n) \<in> set l"
    and f: "(case n of Dir m \<Rightarrow> None
             | File m c \<Rightarrow>
                 (case strip_prefix dir p of None \<Rightarrow> None
                  | Some rel \<Rightarrow>
                      if rel = [] \<or> excluded excl rel then None
                      else Some (dst @ rel, (m, c)))) = Some (k, v)"
    unfolding uploads_def in_map_filter by auto
  from f obtain m c where n: "n = File m c"
    by (cases n) auto
  with f obtain rel where rel: "strip_prefix dir p = Some rel"
    by (cases "strip_prefix dir p") auto
  with f n have "rel \<noteq> []" "\<not> excluded excl rel" "k = dst @ rel" "v = (m, c)"
    by (auto split: if_splits)
  moreover from rel x n have "(dir @ rel, File m c) \<in> set l"
    by (simp add: strip_prefix_Some)
  ultimately show "\<exists>rel m c. k = dst @ rel \<and> v = (m, c) \<and> (dir @ rel, File m c) \<in> set l \<and>
        rel \<noteq> [] \<and> \<not> excluded excl rel"
    by blast
next
  assume "\<exists>rel m c. k = dst @ rel \<and> v = (m, c) \<and> (dir @ rel, File m c) \<in> set l \<and>
        rel \<noteq> [] \<and> \<not> excluded excl rel"
  then obtain rel m c where h: "k = dst @ rel" "v = (m, c)" "(dir @ rel, File m c) \<in> set l"
    "rel \<noteq> []" "\<not> excluded excl rel"
    by blast
  show "(k, v) \<in> set (uploads dir dst excl l)"
    unfolding uploads_def in_map_filter
    by (rule bexI [OF _ h(3)]) (simp add: h)
qed

lemma sync_up_excluded:
  assumes "excluded excl rel"
  shows "map_of (sync_up dir dst excl l r) (dst @ rel) = map_of r (dst @ rel)"
proof -
  let ?keep = "\<lambda>k. case strip_prefix dst k of None \<Rightarrow> True
                  | Some rel \<Rightarrow> rel = [] \<or> excluded excl rel \<or> is_file l (dir @ rel)"
  have "dst @ rel \<notin> fst ` set (uploads dir dst excl l)"
    using assms by (auto simp: in_uploads)
  then have "map_of (sync_up dir dst excl l r) (dst @ rel)
        = map_of (filter (\<lambda>(k, v). ?keep k) r) (dst @ rel)"
    unfolding sync_up_def by (rule put_all_notin)
  also have "\<dots> = map_of r (dst @ rel)"
    using assms by (simp add: map_of_filter_key)
  finally show ?thesis .
qed

lemma sync_up_outside:
  assumes "\<not> prefix dst k"
  shows "map_of (sync_up dir dst excl l r) k = map_of r k"
proof -
  let ?keep = "\<lambda>k. case strip_prefix dst k of None \<Rightarrow> True
                  | Some rel \<Rightarrow> rel = [] \<or> excluded excl rel \<or> is_file l (dir @ rel)"
  have "k \<notin> fst ` set (uploads dir dst excl l)"
    using assms by (auto simp: in_uploads)
  then have "map_of (sync_up dir dst excl l r) k = map_of (filter (\<lambda>(k, v). ?keep k) r) k"
    unfolding sync_up_def by (rule put_all_notin)
  also have "\<dots> = map_of r k"
    using assms by (simp add: map_of_filter_key strip_prefix_None [THEN iffD2])
  finally show ?thesis .
qed

lemma is_dir_write_file [simp]: "is_dir (write_file now p bytes l) q = is_dir l q"
  by (auto simp: write_file_def is_dir_def update_conv')

lemma map_of_write_file_other:
  "q \<noteq> p \<Longrightarrow> map_of (write_file now p bytes l) q = map_of l q"
  by (simp add: write_file_def update_conv')

lemma read_write_file:
  "read_file (write_file now p bytes l) p = (if is_dir l p then None else Some bytes)"
  by (auto simp: write_file_def read_file_def is_dir_def update_conv'
           split: option.splits node.splits)

lemma map_of_write_file_same:
  "\<not> is_dir l p \<Longrightarrow> map_of (write_file now p bytes l) p = Some (File now bytes)"
  by (simp add: write_file_def update_conv')

lemma is_dir_touch [simp]: "is_dir (touch now p l) q = is_dir l q"
  by (auto simp: touch_def is_dir_def update_conv' split: option.splits node.splits)

lemma map_of_touch_other: "q \<noteq> p \<Longrightarrow> map_of (touch now p l) q = map_of l q"
  by (simp add: touch_def update_conv' split: option.splits node.splits)

lemma mtime_touch: "map_option mtime_of (map_of (touch now p l) p) = Some now"
  by (simp add: touch_def update_conv' split: option.splits node.splits)

lemma wc_l_unlines: "wc_l (unlines ls) = 0 \<longleftrightarrow> ls = []"
  by (cases ls) (simp_all add: wc_l_def unlines_def)

lemma files_rclone_CopyDown:
  "files (rclone ok now (CopyDown src dir excl) w) =
     (if ok (CopyDown src dir excl) then copy_down src dir excl (remote w) (files w) else files w)"
  by (simp add: rclone_def)

lemma remote_rclone_SyncUp:
  "remote (rclone ok now (SyncUp dir dst excl) w) =
     (if ok (SyncUp dir dst excl) then sync_up dir dst excl (files w) (remote w) else remote w)"
  by (simp add: rclone_def)

section \<open>The prefix migration\<close>

subsection \<open>One command at a time\<close>

lemma copy_step_copied:
  assumes "ok (CopyRemote src dst)" "distinct (map fst (remote w))"
    "map_of (remote w) (src @ rel) = Some v"
  shows "map_of (remote (rclone ok now (CopyRemote src dst) w)) (dst @ rel) = Some v"
proof -
  have "remote (rclone ok now (CopyRemote src dst) w) = copy_remote src dst (remote w)"
    using assms(1) by (simp add: rclone_def)
  then show ?thesis
    by (simp only: copy_remote_copied [OF assms(2,3)])
qed

lemma copy_step_other:
  assumes "strip_prefix dst k = None"
  shows "map_of (remote (rclone ok now (CopyRemote src dst) w)) k = map_of (remote w) k"
  using copy_remote_other [OF assms, of src "remote w"] by (simp add: rclone_def)

lemma distinct_copy_step:
  "distinct (map fst (remote w)) \<Longrightarrow>
   distinct (map fst (remote (rclone ok now (CopyRemote src dst) w)))"
  by (simp add: rclone_def distinct_copy_remote)

lemma purge_step_other:
  "\<not> prefix pre k \<Longrightarrow> map_of (remote (rclone ok now (Purge pre) w)) k = map_of (remote w) k"
  by (simp add: rclone_def map_of_purge)

lemma purge_step_purged:
  "ok (Purge pre) \<Longrightarrow> prefix pre k \<Longrightarrow> map_of (remote (rclone ok now (Purge pre) w)) k = None"
  by (simp add: rclone_def map_of_purge)

lemma purge_step_None:
  "map_of (remote w) k = None \<Longrightarrow> map_of (remote (rclone ok now (Purge pre) w)) k = None"
  by (simp add: rclone_def map_of_purge)

lemma rcat_step_other:
  "k \<noteq> key \<Longrightarrow> map_of (remote (rclone ok now (Rcat key bytes) w)) k = map_of (remote w) k"
  by (simp add: rclone_def rcat_def update_conv')

subsection \<open>The block of five commands\<close>

lemma relocated_workspace:
  assumes "ok (CopyRemote ''workspace/'' ''openclaw/workspace/'')"
    and "distinct (map fst (remote w))"
    and "map_of (remote w) (''workspace/'' @ rel) = Some v"
  shows "map_of (remote (migration_block ok now stamp w)) (''openclaw/workspace/'' @ rel) = Some v"
proof -
  let ?k = "''openclaw/workspace/'' @ rel"
  let ?w1 = "rclone ok now (CopyRemote ''workspace/'' ''openclaw/workspace/'') w"
  let ?w2 = "rclone ok now (CopyRemote ''skills/'' ''openclaw/skills/'') ?w1"
  let ?w3 = "rclone ok now (Purge ''workspace/'') ?w2"
  let ?w4 = "rclone ok now (Purge ''skills/'') ?w3"
  let ?w5 = "rclone ok now (Rcat MIGRATED (''migrated '' @ stamp @ [newline])) ?w4"
  have 1: "map_of (remote ?w1) ?k = Some v"
    using assms by (rule copy_step_copied)
  have 2: "map_of (remote ?w2) ?k = map_of (remote ?w1) ?k"
    by (rule copy_step_other) simp
  have 3: "map_of (remote ?w3) ?k = map_of (remote ?w2) ?k"
    by (rule purge_step_other) simp
  have 4: "map_of (remote ?w4) ?k = map_of (remote ?w3) ?k"
    by (rule purge_step_other) simp
  have 5: "map_of (remote ?w5) ?k = map_of (remote ?w4) ?k"
    by (rule rcat_step_other) (simp add: MIGRATED_def)
  have "migration_block ok now stamp w = ?w5"
    by (simp add: migration_block_def Let_def)
  then show ?thesis
    using 1 2 3 4 5 by (simp only:)
qed

lemma relocated_skills:
  assumes "ok (CopyRemote ''skills/'' ''openclaw/skills/'')"
    and "distinct (map fst (remote w))"
    and "map_of (remote w) (''skills/'' @ rel) = Some v"
  shows "map_of (remote (migration_block ok now stamp w)) (''openclaw/skills/'' @ rel) = Some v"
proof -
  let ?k = "''openclaw/skills/'' @ rel"
  let ?w1 = "rclone ok now (CopyRemote ''workspace/'' ''openclaw/workspace/'') w"
  let ?w2 = "rclone ok now (CopyRemote ''skills/'' ''openclaw/skills/'') ?w1"
  let ?w3 = "rclone ok now (Purge ''workspace/'') ?w2"
  let ?w4 = "rclone ok now (Purge ''skills/'') ?w3"
  let ?w5 = "rclone ok now (Rcat MIGRATED (''migrated '' @ stamp @ [newline])) ?w4"
  have "map_of (remote ?w1) (''skills/'' @ rel) = map_of (remote w) (''skills/'' @ rel)"
    by (rule copy_step_other) simp
  then have s: "map_of (remote ?w1) (''skills/'' @ rel) = Some v"
    using assms(3) by (simp only:)
  have d: "distinct (map fst (remote ?w1))"
    using assms(2) by (rule distinct_copy_step)
  have 2: "map_of (remote ?w2) ?k = Some v"
    using assms(1) d s by (rule copy_step_copied)
  have 3: "map_of (remote ?w3) ?k = map_of (remote ?w2) ?k"
    by (rule purge_step_other) simp
  have 4: "map_of (remote ?w4) ?k = map_of (remote ?w3) ?k"
    by (rule purge_step_other) simp
  have 5: "map_of (remote ?w5) ?k = map_of (remote ?w4) ?k"
    by (rule rcat_step_other) (simp add: MIGRATED_def)
  have "migration_block ok now stamp w = ?w5"
    by (simp add: migration_block_def Let_def)
  then show ?thesis
    using 2 3 4 5 by (simp only:)
qed

lemma legacy_purged:
  assumes "ok (Purge ''workspace/'') \<and> prefix ''workspace/'' k \<or>
           ok (Purge ''skills/'') \<and> prefix ''skills/'' k"
  shows "map_of (remote (migration_block ok now stamp w)) k = None"
proof -
  let ?w1 = "rclone ok now (CopyRemote ''workspace/'' ''openclaw/workspace/'') w"
  let ?w2 = "rclone ok now (CopyRemote ''skills/'' ''openclaw/skills/'') ?w1"
  let ?w3 = "rclone ok now (Purge ''workspace/'') ?w2"
  let ?w4 = "rclone ok now (Purge ''skills/'') ?w3"
  let ?w5 = "rclone ok now (Rcat MIGRATED (''migrated '' @ stamp @ [newline])) ?w4"
  have m: "k \<noteq> MIGRATED"
    using assms by (auto simp: MIGRATED_def)
  have 4: "map_of (remote ?w4) k = None"
    using assms
  proof
    assume a: "ok (Purge ''workspace/'') \<and> prefix ''workspace/'' k"
    then have "map_of (remote ?w3) k = None"
      by (simp add: purge_step_purged)
    then show ?thesis
      by (rule purge_step_None)
  next
    assume a: "ok (Purge ''skills/'') \<and> prefix ''skills/'' k"
    then show ?thesis
      by (simp add: purge_step_purged)
  qed
  have 5: "map_of (remote ?w5) k = map_of (remote ?w4) k"
    using m by (rule rcat_step_other)
  have "migration_block ok now stamp w = ?w5"
    by (simp add: migration_block_def Let_def)
  then show ?thesis
    using 4 5 by (simp only:)
qed

subsection \<open>The marker check\<close>

lemma migrate_unmarked:
  "\<not> grep_q ''migrated'' (rclone_cat ok (remote w) MIGRATED) \<Longrightarrow>
   migrate ok now stamp w = migration_block ok now stamp w"
  by (simp add: migrate_def)

lemma migrate_marked:
  "grep_q ''migrated'' (rclone_cat ok (remote w) MIGRATED) \<Longrightarrow> migrate ok now stamp w = w"
  by (simp add: migrate_def)

lemma tag_read_again:
  assumes "grep_q ''migrated'' (rclone_cat ok r key)" "ok2 (Cat key)"
  shows "grep_q ''migrated'' (rclone_cat ok2 r key)"
  using assms by (simp add: rclone_cat_def split: if_splits)

lemma migrate_after_marker:
  assumes "ok (Rcat MIGRATED (''migrated '' @ stamp @ [newline]))" and "ok2 (Cat MIGRATED)"
  shows "migrate ok2 now2 stamp2 (migration_block ok now stamp w) = migration_block ok now stamp w"
proof -
  have "rclone_cat ok2 (remote (migration_block ok now stamp w)) MIGRATED
          = ''migrated '' @ stamp @ [newline]"
    using migration_block_marker [of ok stamp now w] assms by (simp add: rclone_cat_def)
  then have "grep_q ''migrated''
               (rclone_cat ok2 (remote (migration_block ok now stamp w)) MIGRATED)"
    by (simp add: newline_def)
  then show ?thesis
    by (rule migrate_marked)
qed

lemma migrate_twice:
  assumes "ok (Rcat MIGRATED (''migrated '' @ stamp @ [newline]))" and "ok2 (Cat MIGRATED)"
  shows "migrate ok2 now2 stamp2 (migrate ok now stamp w) = migrate ok now stamp w"
proof (cases "grep_q ''migrated'' (rclone_cat ok (remote w) MIGRATED)")
  case True
  then have "grep_q ''migrated'' (rclone_cat ok2 (remote w) MIGRATED)"
    using assms(2) by (rule tag_read_again)
  with True show ?thesis
    by (simp add: migrate_marked)
next
  case False
  then have "migrate ok now stamp w = migration_block ok now stamp w"
    by (rule migrate_unmarked)
  then show ?thesis
    using assms by (simp only: migrate_after_marker)
qed

subsection \<open>The claims about the migration\<close>

text \<open>
  Claim C1 says that the marker is not written in a run in which a copy or a purge
  fails. The block ends every relocation step with \<^verbatim>\<open>|| true\<close> and runs
  \<^verbatim>\<open>rclone rcat\<close> unconditionally after them. In the run below the four relocation
  steps all fail and the marker, absent before, holds the completion tag afterwards: the
  legacy object is still where it was, nothing was copied, and the next run, with no
  failure at all, does nothing.
\<close>

theorem marker_written_after_failed_steps:
  "\<not> only_rcat_ok (CopyRemote ''workspace/'' ''openclaw/workspace/'') \<and>
   \<not> only_rcat_ok (CopyRemote ''skills/'' ''openclaw/skills/'') \<and>
   \<not> only_rcat_ok (Purge ''workspace/'') \<and>
   \<not> only_rcat_ok (Purge ''skills/'') \<and>
   map_of (remote legacy_world) MIGRATED = None \<and>
   map_of (remote (migrate only_rcat_ok 7 ''2026-11-03T00:00:00+00:00'' legacy_world)) MIGRATED
     = Some (7, ''migrated 2026-11-03T00:00:00+00:00'' @ [newline]) \<and>
   map_of (remote (migrate only_rcat_ok 7 ''2026-11-03T00:00:00+00:00'' legacy_world))
     ''workspace/notes.md'' = Some (1, ''n'') \<and>
   map_of (remote (migrate only_rcat_ok 7 ''2026-11-03T00:00:00+00:00'' legacy_world))
     ''openclaw/workspace/notes.md'' = None \<and>
   migrate all_ok 8 ''2026-11-04T00:00:00+00:00''
       (migrate only_rcat_ok 7 ''2026-11-03T00:00:00+00:00'' legacy_world)
     = migrate only_rcat_ok 7 ''2026-11-03T00:00:00+00:00'' legacy_world"
  by (simp add: migrate_def migration_block_def rclone_def rclone_cat_def rcat_def Let_def
      legacy_world_def MIGRATED_def newline_def all_ok_def)

text \<open>
  Claim C1, as amended: in every run whose marker check does not find the completion
  tag, the write of the marker is the last command of the run, whichever of the copy and
  purge steps failed before it; when the write itself succeeds, the marker object holds
  the completion tag and the time stamp after the run.
\<close>

theorem migration_marker_written_whatever_fails:
  assumes "\<not> grep_q ''migrated'' (rclone_cat ok (remote w) MIGRATED)"
  shows "last (events (migrate ok now stamp w))
           = Rclone (Rcat MIGRATED (''migrated '' @ stamp @ [newline]))
               (ok (Rcat MIGRATED (''migrated '' @ stamp @ [newline]))) \<and>
         (ok (Rcat MIGRATED (''migrated '' @ stamp @ [newline])) \<longrightarrow>
            map_of (remote (migrate ok now stamp w)) MIGRATED
              = Some (now, ''migrated '' @ stamp @ [newline]))"
  using assms by (simp add: migrate_def migration_block_events migration_block_marker)

theorem migration_marker_written_whatever_fails_witness:
  "\<not> grep_q ''migrated'' (rclone_cat only_rcat_ok (remote legacy_world) MIGRATED) \<and>
   only_rcat_ok (Rcat MIGRATED (''migrated '' @ ''T1'' @ [newline])) \<and>
   \<not> only_rcat_ok (CopyRemote ''workspace/'' ''openclaw/workspace/'') \<and>
   last (events (migrate only_rcat_ok 7 ''T1'' legacy_world))
     = Rclone (Rcat MIGRATED (''migrated '' @ ''T1'' @ [newline])) True \<and>
   map_of (remote (migrate only_rcat_ok 7 ''T1'' legacy_world)) MIGRATED
     = Some (7, ''migrated '' @ ''T1'' @ [newline])"
proof -
  have h: "\<not> grep_q ''migrated'' (rclone_cat only_rcat_ok (remote legacy_world) MIGRATED)"
    by (simp add: rclone_cat_def legacy_world_def MIGRATED_def)
  show ?thesis
    using h migration_marker_written_whatever_fails [OF h, of 7 "''T1''"]
    by simp
qed

text \<open>
  Claim C2 says that no run changes the bucket once the marker object exists with the
  completion tag. The check of line 104 reads the marker through \<^verbatim>\<open>rclone cat\<close> with
  the error output dropped: when the read fails, \<^verbatim>\<open>grep\<close> finds nothing and the block
  runs. In the run below the marker exists and holds the tag, the read fails, and the run
  issues the two copies, the two purges and the write, which replaces the marker.
\<close>

theorem marked_bucket_migrated_again:
  "map_of (remote migrated_world) MIGRATED = Some (3, ''migrated 2026-01-01T00:00:00+00:00'') \<and>
   sublist ''migrated'' ''migrated 2026-01-01T00:00:00+00:00'' \<and>
   \<not> read_fails (Cat MIGRATED) \<and>
   events (migrate read_fails 9 ''T2'' migrated_world) =
     [Rclone (CopyRemote ''workspace/'' ''openclaw/workspace/'') True,
      Rclone (CopyRemote ''skills/'' ''openclaw/skills/'') True,
      Rclone (Purge ''workspace/'') True,
      Rclone (Purge ''skills/'') True,
      Rclone (Rcat MIGRATED (''migrated '' @ ''T2'' @ [newline])) True] \<and>
   map_of (remote (migrate read_fails 9 ''T2'' migrated_world)) MIGRATED
     = Some (9, ''migrated '' @ ''T2'' @ [newline])"
proof -
  have s: "sublist ''migrated'' ''migrated 2026-01-01T00:00:00+00:00''"
    by (simp add: grep_q_migrated [symmetric] newline_def)
  have u: "\<not> grep_q ''migrated'' (rclone_cat read_fails (remote migrated_world) MIGRATED)"
    by (simp add: rclone_cat_def)
  have e: "events migrated_world = []"
    and m: "map_of (remote migrated_world) MIGRATED
              = Some (3, ''migrated 2026-01-01T00:00:00+00:00'')"
    by (simp_all add: migrated_world_def MIGRATED_def)
  have "events (migrate read_fails 9 ''T2'' migrated_world) =
     [Rclone (CopyRemote ''workspace/'' ''openclaw/workspace/'') True,
      Rclone (CopyRemote ''skills/'' ''openclaw/skills/'') True,
      Rclone (Purge ''workspace/'') True,
      Rclone (Purge ''skills/'') True,
      Rclone (Rcat MIGRATED (''migrated '' @ ''T2'' @ [newline])) True]"
    by (simp add: migrate_unmarked [OF u] migration_block_events e)
  moreover have "map_of (remote (migrate read_fails 9 ''T2'' migrated_world)) MIGRATED
     = Some (9, ''migrated '' @ ''T2'' @ [newline])"
    unfolding migrate_unmarked [OF u] by (rule migration_block_marker) simp
  ultimately show ?thesis
    using s m by simp
qed

text \<open>
  Claim C2, as amended: in every run in which the read of the marker succeeds, the
  marker object exists and its payload contains the completion tag \<^verbatim>\<open>migrated\<close>, the
  migration leaves the world as it found it: the bucket is unchanged and no command (no
  copy, no purge, no write of the marker) is issued, whatever happens to the other
  commands.
\<close>

theorem migrate_noop_when_marked:
  assumes "ok (Cat MIGRATED)"
    and "map_of (remote w) MIGRATED = Some (m, bytes)" and "sublist ''migrated'' bytes"
  shows "migrate ok now stamp w = w"
  using assms by (simp add: migrate_def rclone_cat_def grep_q_migrated)

theorem migrate_noop_when_marked_witness:
  "copies_fail (Cat MIGRATED) \<and>
   map_of (remote migrated_world) MIGRATED = Some (3, ''migrated 2026-01-01T00:00:00+00:00'') \<and>
   sublist ''migrated'' ''migrated 2026-01-01T00:00:00+00:00'' \<and>
   migrate copies_fail 9 ''T2'' migrated_world = migrated_world"
proof -
  have c: "copies_fail (Cat MIGRATED)"
    by simp
  have a: "map_of (remote migrated_world) MIGRATED = Some (3, ''migrated 2026-01-01T00:00:00+00:00'')"
    by (simp add: migrated_world_def MIGRATED_def)
  have b: "sublist ''migrated'' ''migrated 2026-01-01T00:00:00+00:00''"
    by (simp add: grep_q_migrated [symmetric] newline_def)
  show ?thesis
    using c a b
      migrate_noop_when_marked
        [of copies_fail migrated_world 3 "''migrated 2026-01-01T00:00:00+00:00''" 9 "''T2''"]
    by simp
qed

text \<open>
  Claim C3 says that two runs give what one run gives, and that the contents of each
  legacy prefix are copied before the prefix is purged. Neither holds when a command
  fails, since no step looks at the exit status of the step before it.
  \<^item> With both copies failing and everything else succeeding, the purges run all the
    same: the legacy object is deleted and was never copied.
  \<^item> With the write of the marker failing in the first run, the second run writes it:
    the bucket after two runs differs from the bucket after one.
  \<^item> With the read of the marker failing in the second run, the second run writes the
    marker again, with its own time stamp.
\<close>

theorem purged_uncopied_and_twice_differs:
  "map_of (remote legacy_world) ''workspace/notes.md'' = Some (1, ''n'') \<and>
   map_of (remote (migrate copies_fail 7 ''T1'' legacy_world)) ''workspace/notes.md'' = None \<and>
   map_of (remote (migrate copies_fail 7 ''T1'' legacy_world)) ''openclaw/workspace/notes.md''
     = None \<and>
   map_of (remote (migrate rcat_fails 7 ''T1'' legacy_world)) MIGRATED = None \<and>
   map_of (remote (migrate all_ok 9 ''T2'' (migrate rcat_fails 7 ''T1'' legacy_world))) MIGRATED
     = Some (9, ''migrated '' @ ''T2'' @ [newline]) \<and>
   map_of (remote (migrate all_ok 7 ''T1'' legacy_world)) MIGRATED
     = Some (7, ''migrated '' @ ''T1'' @ [newline]) \<and>
   map_of (remote (migrate read_fails 9 ''T2'' (migrate all_ok 7 ''T1'' legacy_world))) MIGRATED
     = Some (9, ''migrated '' @ ''T2'' @ [newline])"
  by (simp add: migrate_def migration_block_def rclone_def rclone_cat_def rcat_def Let_def
      legacy_world_def MIGRATED_def newline_def all_ok_def copy_remote_def copies_def
      purge_def List.map_filter_simps)

text \<open>
  Claim C3, as amended, in five parts.
  \<^item> A second run changes nothing when the write of the marker succeeded in the first
    run and the read of the marker succeeds in the second, whatever else fails; so it is
    when no command fails.
  \<^item> A run that does not find the completion tag issues, for every oracle, exactly the
    commands copy \<^verbatim>\<open>workspace/\<close>, copy \<^verbatim>\<open>skills/\<close>, purge \<^verbatim>\<open>workspace/\<close>,
    purge \<^verbatim>\<open>skills/\<close>, write the marker, in this order: the copy of each legacy prefix
    is attempted before its purge, and the write of the marker after both relocations
    were attempted.
  \<^item> When the copy of \<^verbatim>\<open>workspace/\<close> succeeds, in a bucket with one object per key,
    every object below it is found below \<^verbatim>\<open>openclaw/workspace/\<close> after the run;
  \<^item> likewise for \<^verbatim>\<open>skills/\<close>.
  \<^item> When the purge of a legacy prefix succeeds, no object is left below it after the
    run, whether or not its copy succeeded.
\<close>

theorem migrate_idempotent_and_ordered:
  "(ok (Rcat MIGRATED (''migrated '' @ stamp @ [newline])) \<and> ok2 (Cat MIGRATED) \<longrightarrow>
      migrate ok2 now2 stamp2 (migrate ok now stamp w) = migrate ok now stamp w) \<and>
   (\<not> grep_q ''migrated'' (rclone_cat ok (remote w) MIGRATED) \<longrightarrow>
      events (migrate ok now stamp w) =
        events w @
        [Rclone (CopyRemote ''workspace/'' ''openclaw/workspace/'')
           (ok (CopyRemote ''workspace/'' ''openclaw/workspace/'')),
         Rclone (CopyRemote ''skills/'' ''openclaw/skills/'')
           (ok (CopyRemote ''skills/'' ''openclaw/skills/'')),
         Rclone (Purge ''workspace/'') (ok (Purge ''workspace/'')),
         Rclone (Purge ''skills/'') (ok (Purge ''skills/'')),
         Rclone (Rcat MIGRATED (''migrated '' @ stamp @ [newline]))
           (ok (Rcat MIGRATED (''migrated '' @ stamp @ [newline])))]) \<and>
   (\<not> grep_q ''migrated'' (rclone_cat ok (remote w) MIGRATED) \<and>
    ok (CopyRemote ''workspace/'' ''openclaw/workspace/'') \<and> distinct (map fst (remote w)) \<and>
    map_of (remote w) (''workspace/'' @ rel) = Some v \<longrightarrow>
      map_of (remote (migrate ok now stamp w)) (''openclaw/workspace/'' @ rel) = Some v) \<and>
   (\<not> grep_q ''migrated'' (rclone_cat ok (remote w) MIGRATED) \<and>
    ok (CopyRemote ''skills/'' ''openclaw/skills/'') \<and> distinct (map fst (remote w)) \<and>
    map_of (remote w) (''skills/'' @ rel') = Some v' \<longrightarrow>
      map_of (remote (migrate ok now stamp w)) (''openclaw/skills/'' @ rel') = Some v') \<and>
   (\<not> grep_q ''migrated'' (rclone_cat ok (remote w) MIGRATED) \<and>
    (ok (Purge ''workspace/'') \<and> prefix ''workspace/'' k \<or>
     ok (Purge ''skills/'') \<and> prefix ''skills/'' k) \<longrightarrow>
      map_of (remote (migrate ok now stamp w)) k = None)"
proof (intro conjI impI)
  assume "ok (Rcat MIGRATED (''migrated '' @ stamp @ [newline])) \<and> ok2 (Cat MIGRATED)"
  then have "ok (Rcat MIGRATED (''migrated '' @ stamp @ [newline]))" and "ok2 (Cat MIGRATED)"
    by blast+
  then show "migrate ok2 now2 stamp2 (migrate ok now stamp w) = migrate ok now stamp w"
    by (rule migrate_twice)
next
  assume "\<not> grep_q ''migrated'' (rclone_cat ok (remote w) MIGRATED)"
  then show "events (migrate ok now stamp w) =
        events w @
        [Rclone (CopyRemote ''workspace/'' ''openclaw/workspace/'')
           (ok (CopyRemote ''workspace/'' ''openclaw/workspace/'')),
         Rclone (CopyRemote ''skills/'' ''openclaw/skills/'')
           (ok (CopyRemote ''skills/'' ''openclaw/skills/'')),
         Rclone (Purge ''workspace/'') (ok (Purge ''workspace/'')),
         Rclone (Purge ''skills/'') (ok (Purge ''skills/'')),
         Rclone (Rcat MIGRATED (''migrated '' @ stamp @ [newline]))
           (ok (Rcat MIGRATED (''migrated '' @ stamp @ [newline])))]"
    by (simp add: migrate_def migration_block_events)
next
  assume "\<not> grep_q ''migrated'' (rclone_cat ok (remote w) MIGRATED) \<and>
    ok (CopyRemote ''workspace/'' ''openclaw/workspace/'') \<and> distinct (map fst (remote w)) \<and>
    map_of (remote w) (''workspace/'' @ rel) = Some v"
  then have m: "migrate ok now stamp w = migration_block ok now stamp w"
    and c: "ok (CopyRemote ''workspace/'' ''openclaw/workspace/'')"
    and d: "distinct (map fst (remote w))"
    and g: "map_of (remote w) (''workspace/'' @ rel) = Some v"
    by (blast intro: migrate_unmarked)+
  show "map_of (remote (migrate ok now stamp w)) (''openclaw/workspace/'' @ rel) = Some v"
    unfolding m using c d g by (rule relocated_workspace)
next
  assume "\<not> grep_q ''migrated'' (rclone_cat ok (remote w) MIGRATED) \<and>
    ok (CopyRemote ''skills/'' ''openclaw/skills/'') \<and> distinct (map fst (remote w)) \<and>
    map_of (remote w) (''skills/'' @ rel') = Some v'"
  then have m: "migrate ok now stamp w = migration_block ok now stamp w"
    and c: "ok (CopyRemote ''skills/'' ''openclaw/skills/'')"
    and d: "distinct (map fst (remote w))"
    and g: "map_of (remote w) (''skills/'' @ rel') = Some v'"
    by (blast intro: migrate_unmarked)+
  show "map_of (remote (migrate ok now stamp w)) (''openclaw/skills/'' @ rel') = Some v'"
    unfolding m using c d g by (rule relocated_skills)
next
  assume "\<not> grep_q ''migrated'' (rclone_cat ok (remote w) MIGRATED) \<and>
    (ok (Purge ''workspace/'') \<and> prefix ''workspace/'' k \<or>
     ok (Purge ''skills/'') \<and> prefix ''skills/'' k)"
  then have m: "migrate ok now stamp w = migration_block ok now stamp w"
    and g: "ok (Purge ''workspace/'') \<and> prefix ''workspace/'' k \<or>
            ok (Purge ''skills/'') \<and> prefix ''skills/'' k"
    by (blast intro: migrate_unmarked)+
  show "map_of (remote (migrate ok now stamp w)) k = None"
    unfolding m using g by (rule legacy_purged)
qed

theorem migrate_idempotent_and_ordered_witness:
  "all_ok (Rcat MIGRATED (''migrated '' @ ''T1'' @ [newline])) \<and>
   copies_fail (Cat MIGRATED) \<and>
   \<not> grep_q ''migrated'' (rclone_cat all_ok (remote legacy_world) MIGRATED) \<and>
   all_ok (CopyRemote ''workspace/'' ''openclaw/workspace/'') \<and>
   all_ok (CopyRemote ''skills/'' ''openclaw/skills/'') \<and>
   all_ok (Purge ''workspace/'') \<and>
   distinct (map fst (remote legacy_world)) \<and>
   map_of (remote legacy_world) (''workspace/'' @ ''notes.md'') = Some (1, ''n'') \<and>
   map_of (remote legacy_world) (''skills/'' @ ''s.md'') = Some (2, ''s'') \<and>
   prefix ''workspace/'' ''workspace/notes.md'' \<and>
   migrate copies_fail 9 ''T2'' (migrate all_ok 7 ''T1'' legacy_world)
     = migrate all_ok 7 ''T1'' legacy_world \<and>
   events (migrate all_ok 7 ''T1'' legacy_world) =
     [Rclone (CopyRemote ''workspace/'' ''openclaw/workspace/'') True,
      Rclone (CopyRemote ''skills/'' ''openclaw/skills/'') True,
      Rclone (Purge ''workspace/'') True,
      Rclone (Purge ''skills/'') True,
      Rclone (Rcat MIGRATED (''migrated '' @ ''T1'' @ [newline])) True] \<and>
   map_of (remote (migrate all_ok 7 ''T1'' legacy_world)) (''openclaw/workspace/'' @ ''notes.md'')
     = Some (1, ''n'') \<and>
   map_of (remote (migrate all_ok 7 ''T1'' legacy_world)) (''openclaw/skills/'' @ ''s.md'')
     = Some (2, ''s'') \<and>
   map_of (remote (migrate all_ok 7 ''T1'' legacy_world)) ''workspace/notes.md'' = None"
proof -
  have o: "all_ok (Rcat MIGRATED (''migrated '' @ ''T1'' @ [newline]))"
    "copies_fail (Cat MIGRATED)"
    "all_ok (CopyRemote ''workspace/'' ''openclaw/workspace/'')"
    "all_ok (CopyRemote ''skills/'' ''openclaw/skills/'')"
    "all_ok (Purge ''workspace/'')"
    by (simp_all add: all_ok_def)
  have h: "\<not> grep_q ''migrated'' (rclone_cat all_ok (remote legacy_world) MIGRATED)"
    by (simp add: rclone_cat_def legacy_world_def MIGRATED_def)
  have d: "distinct (map fst (remote legacy_world))"
    by (simp add: legacy_world_def)
  have a: "map_of (remote legacy_world) (''workspace/'' @ ''notes.md'') = Some (1, ''n'')"
    by (simp add: legacy_world_def)
  have b: "map_of (remote legacy_world) (''skills/'' @ ''s.md'') = Some (2, ''s'')"
    by (simp add: legacy_world_def)
  have e: "events legacy_world = []"
    by (simp add: legacy_world_def)
  show ?thesis
    using o h d a b e
      migrate_idempotent_and_ordered
        [of all_ok "''T1''" copies_fail 9 "''T2''" 7 legacy_world
            "''notes.md''" "(1, ''n'')" "''s.md''" "(2, ''s'')" "''workspace/notes.md''"]
    by (simp add: all_ok_def)
qed

section \<open>The restore of the config\<close>

lemma legacy_rename_noop: "is_file (files w) CONFIG_FILE \<Longrightarrow> legacy_rename w = w"
  by (simp add: legacy_rename_def)

lemma legacy_rename_changes:
  "legacy_rename w \<noteq> w \<Longrightarrow>
   is_file (files w) (CONFIG_DIR @ ''/clawdbot.json'') \<and> \<not> is_file (files w) CONFIG_FILE"
  by (auto simp: legacy_rename_def split: if_splits)

lemma is_file_after_restore_copy:
  "is_file (files w) p \<Longrightarrow> is_file (files (rclone ok now (CopyDown src dir excl) w)) p"
  by (simp add: files_rclone_CopyDown is_file_copy_down)

lemma restore_legacy_keeps_current:
  assumes "is_file (files w) CONFIG_FILE"
  shows "restore_legacy ok now w
           = rclone ok now (CopyDown ''clawdbot/'' (CONFIG_DIR @ ''/'') restore_excludes) w"
  unfolding restore_legacy_def
  by (rule legacy_rename_noop) (rule is_file_after_restore_copy [OF assms])

lemma restore_legacy_current_bytes:
  assumes "map_of (files w) CONFIG_FILE = Some (File m c)"
    and "map_of (remote w) ''clawdbot/openclaw.json'' = None"
  shows "map_of (files (restore_legacy ok now w)) CONFIG_FILE = Some (File m c)"
proof -
  have f: "is_file (files w) CONFIG_FILE"
    using assms(1) by (simp add: is_file_def)
  have "map_of (remote w) (''clawdbot/'' @ ''openclaw.json'') = None"
    using assms(2) by simp
  then have "map_of (copy_down ''clawdbot/'' (CONFIG_DIR @ ''/'') restore_excludes (remote w) (files w))
               ((CONFIG_DIR @ ''/'') @ ''openclaw.json'')
             = map_of (files w) ((CONFIG_DIR @ ''/'') @ ''openclaw.json'')"
    by (rule copy_down_absent)
  then have "map_of (copy_down ''clawdbot/'' (CONFIG_DIR @ ''/'') restore_excludes (remote w) (files w))
               CONFIG_FILE = map_of (files w) CONFIG_FILE"
    by (simp add: CONFIG_FILE_def)
  then show ?thesis
    using assms(1) by (simp add: restore_legacy_keeps_current [OF f] files_rclone_CopyDown)
qed

lemma restore_config_legacy:
  "\<not> list_ex (grep_q ''openclaw.json'') (rclone_ls ok (remote w) ''openclaw/openclaw.json'') \<and>
   list_ex (grep_q ''clawdbot.json'') (rclone_ls ok (remote w) ''clawdbot/clawdbot.json'') \<Longrightarrow>
   restore_config ok now w = restore_legacy ok now w"
  by (simp add: restore_config_def)

text \<open>
  Claim C10. The rename of lines 74 to 76 is guarded:
  \<^item> with a current config file in place it does nothing;
  \<^item> whenever it changes anything, the copied legacy file existed and no current config
    file did;
  \<^item> the restore takes the legacy branch when the bucket lists no current config and
    lists a legacy one;
  \<^item> a legacy restore that finds a current config file is the copy alone, with no rename;
  \<^item> and that file keeps its modification time and bytes through the whole legacy
    restore, unless the bucket holds an object \<^verbatim>\<open>clawdbot/openclaw.json\<close> of the same
    name, which the copy itself downloads.
\<close>

theorem legacy_rename_guarded:
  "(is_file (files w) CONFIG_FILE \<longrightarrow> legacy_rename w = w) \<and>
   (legacy_rename w' \<noteq> w' \<longrightarrow>
      is_file (files w') (CONFIG_DIR @ ''/clawdbot.json'') \<and> \<not> is_file (files w') CONFIG_FILE) \<and>
   (\<not> list_ex (grep_q ''openclaw.json'') (rclone_ls ok (remote w) ''openclaw/openclaw.json'') \<and>
    list_ex (grep_q ''clawdbot.json'') (rclone_ls ok (remote w) ''clawdbot/clawdbot.json'') \<longrightarrow>
      restore_config ok now w = restore_legacy ok now w) \<and>
   (is_file (files w) CONFIG_FILE \<longrightarrow>
      restore_legacy ok now w
        = rclone ok now (CopyDown ''clawdbot/'' (CONFIG_DIR @ ''/'') restore_excludes) w) \<and>
   (map_of (files w) CONFIG_FILE = Some (File m c) \<and>
    map_of (remote w) ''clawdbot/openclaw.json'' = None \<longrightarrow>
      map_of (files (restore_legacy ok now w)) CONFIG_FILE = Some (File m c))"
  using legacy_rename_noop [of w] legacy_rename_changes [of w'] restore_config_legacy [of ok w now]
    restore_legacy_keeps_current [of w ok now] restore_legacy_current_bytes [of w m c ok now]
  by blast

theorem legacy_rename_guarded_witness:
  "is_file (files both_configs_world) CONFIG_FILE \<and>
   legacy_rename both_configs_world = both_configs_world \<and>
   legacy_rename legacy_copied_world \<noteq> legacy_copied_world \<and>
   is_file (files legacy_copied_world) (CONFIG_DIR @ ''/clawdbot.json'') \<and>
   \<not> is_file (files legacy_copied_world) CONFIG_FILE \<and>
   map_of (files (legacy_rename legacy_copied_world)) CONFIG_FILE = Some (File 2 ''legacy'') \<and>
   \<not> list_ex (grep_q ''openclaw.json'')
       (rclone_ls all_ok (remote both_configs_world) ''openclaw/openclaw.json'') \<and>
   list_ex (grep_q ''clawdbot.json'')
     (rclone_ls all_ok (remote both_configs_world) ''clawdbot/clawdbot.json'') \<and>
   restore_config all_ok 9 both_configs_world = restore_legacy all_ok 9 both_configs_world \<and>
   map_of (files both_configs_world) CONFIG_FILE = Some (File 5 ''current'') \<and>
   map_of (remote both_configs_world) ''clawdbot/openclaw.json'' = None \<and>
   restore_legacy all_ok 9 both_configs_world
     = rclone all_ok 9 (CopyDown ''clawdbot/'' (CONFIG_DIR @ ''/'') restore_excludes)
         both_configs_world \<and>
   map_of (files (restore_legacy all_ok 9 both_configs_world)) CONFIG_FILE
     = Some (File 5 ''current'')"
proof -
  have a: "is_file (files both_configs_world) CONFIG_FILE"
    "map_of (files both_configs_world) CONFIG_FILE = Some (File 5 ''current'')"
    "map_of (remote both_configs_world) ''clawdbot/openclaw.json'' = None"
    by (simp_all add: both_configs_world_def is_file_def script_paths)
  have b: "legacy_rename legacy_copied_world \<noteq> legacy_copied_world"
    "map_of (files (legacy_rename legacy_copied_world)) CONFIG_FILE = Some (File 2 ''legacy'')"
    by (simp_all add: legacy_copied_world_def legacy_rename_def mv_def is_file_def is_dir_def
        script_paths update_conv')
  have c: "\<not> list_ex (grep_q ''openclaw.json'')
               (rclone_ls all_ok (remote both_configs_world) ''openclaw/openclaw.json'')"
    "list_ex (grep_q ''clawdbot.json'')
       (rclone_ls all_ok (remote both_configs_world) ''clawdbot/clawdbot.json'')"
    by (simp_all add: both_configs_world_def rclone_ls_def List.map_filter_simps basename_def
        newline_def all_ok_def)
  show ?thesis
    using a b c
      legacy_rename_guarded [of both_configs_world legacy_copied_world all_ok 9 5 "''current''"]
    by blast
qed

section \<open>The sync loop\<close>

subsection \<open>The pull\<close>

lemma remote_pull [simp]: "remote (pull ok now w) = remote w"
  by (simp add: pull_def Let_def)

lemma is_dir_rclone_CopyDown [simp]:
  "is_dir (files (rclone ok now (CopyDown src dir excl) w)) p = is_dir (files w) p"
  by (simp add: files_rclone_CopyDown)

lemma is_dir_pull [simp]: "is_dir (files (pull ok now w)) p = is_dir (files w) p"
  by (simp add: pull_def Let_def)

lemma rclone_CopyDown_keeps:
  "map_of (files w) p \<noteq> None \<Longrightarrow>
   map_of (files (rclone ok now (CopyDown src dir excl) w)) p \<noteq> None"
  by (simp add: files_rclone_CopyDown copy_down_keeps del: not_None_eq)

lemma pull_keeps: "map_of (files w) p \<noteq> None \<Longrightarrow> map_of (files (pull ok now w)) p \<noteq> None"
  by (simp add: pull_def Let_def rclone_CopyDown_keeps del: not_None_eq)

lemma pull_keeps_files: "is_file (files w) p \<Longrightarrow> is_file (files (pull ok now w)) p"
  by (simp add: pull_def Let_def is_file_after_restore_copy)

lemma copy_down_no_counterpart:
  assumes "case strip_prefix dir p of None \<Rightarrow> True | Some rel \<Rightarrow> map_of r (src @ rel) = None"
  shows "map_of (copy_down src dir excl r l) p = map_of l p"
proof (cases "strip_prefix dir p")
  case None
  then have "\<not> prefix dir p" by (simp add: strip_prefix_None)
  then show ?thesis by (rule copy_down_outside)
next
  case (Some rel)
  then have p: "p = dir @ rel" by (simp add: strip_prefix_Some)
  from Some assms have "map_of r (src @ rel) = None" by simp
  then show ?thesis unfolding p by (rule copy_down_absent)
qed

lemma pull_absent:
  assumes "absent_remotely (remote w) p"
  shows "map_of (files (pull ok now w)) p = map_of (files w) p"
proof -
  have 1: "map_of (copy_down ''openclaw/workspace/'' (WORKSPACE_DIR @ ''/'') workspace_excludes
                     (remote w) l) p = map_of l p" for l
    using assms by (intro copy_down_no_counterpart) (simp add: absent_remotely_def)
  have 2: "map_of (copy_down ''openclaw/skills/'' (SKILLS_DIR @ ''/'') [] (remote w) l) p
             = map_of l p" for l
    using assms by (intro copy_down_no_counterpart) (simp add: absent_remotely_def)
  show ?thesis
    by (simp add: pull_def Let_def files_rclone_CopyDown 1 2)
qed

lemma map_of_copy_down:
  "map_of (copy_down src dir excl r l) = map_of l ++ map_of (rev (downloads src dir excl r l))"
  by (simp add: copy_down_def map_of_put_all)

lemma downloads_after_copy_down [simp]:
  "downloads src dir excl r (copy_down src' dir' excl' r' l) = downloads src dir excl r l"
  by (rule downloads_cong) (simp add: fun_eq_iff)

lemma downloads_after_pull [simp]:
  "downloads src dir excl r (files (pull ok now w)) = downloads src dir excl r (files w)"
  by (rule downloads_cong) (simp add: fun_eq_iff)

lemma pulled_disjoint:
  assumes "map_of (rev (downloads ''openclaw/workspace/'' (WORKSPACE_DIR @ ''/'') workspace_excludes r l)) p
             = Some v"
  shows "map_of (rev (downloads ''openclaw/skills/'' (SKILLS_DIR @ ''/'') [] r' l')) p = None"
proof (rule ccontr)
  assume "map_of (rev (downloads ''openclaw/skills/'' (SKILLS_DIR @ ''/'') [] r' l')) p \<noteq> None"
  then obtain v' where "(p, v') \<in> set (downloads ''openclaw/skills/'' (SKILLS_DIR @ ''/'') [] r' l')"
    by (auto dest: map_of_SomeD)
  then obtain rel' where s: "p = (SKILLS_DIR @ ''/'') @ rel'"
    by (auto simp: in_downloads)
  from assms have "(p, v) \<in> set (downloads ''openclaw/workspace/'' (WORKSPACE_DIR @ ''/'') workspace_excludes r l)"
    by (auto dest: map_of_SomeD)
  then obtain rel where w: "p = (WORKSPACE_DIR @ ''/'') @ rel" "\<not> excluded workspace_excludes rel"
    by (auto simp: in_downloads)
  from s w(1) have "rel = ''skills/'' @ rel'"
    by (simp add: script_paths)
  with w(2) show False
    using excluded_subtrees(3) [of rel'] by simp
qed

lemma map_of_pull:
  "map_of (files (pull ok now w)) =
     map_of (files w)
     ++ (if is_dir (files w) WORKSPACE_DIR
            \<and> ok (CopyDown ''openclaw/workspace/'' (WORKSPACE_DIR @ ''/'') workspace_excludes)
         then map_of (rev (downloads ''openclaw/workspace/'' (WORKSPACE_DIR @ ''/'') workspace_excludes
                             (remote w) (files w)))
         else Map.empty)
     ++ (if is_dir (files w) SKILLS_DIR \<and> ok (CopyDown ''openclaw/skills/'' (SKILLS_DIR @ ''/'') [])
         then map_of (rev (downloads ''openclaw/skills/'' (SKILLS_DIR @ ''/'') [] (remote w) (files w)))
         else Map.empty)"
  by (simp add: pull_def Let_def files_rclone_CopyDown map_of_copy_down)

lemma pull_twice:
  "map_of (files (pull ok2 now2 (pull all_ok now w))) = map_of (files (pull all_ok now w))"
proof (rule ext)
  fix p
  show "map_of (files (pull ok2 now2 (pull all_ok now w))) p = map_of (files (pull all_ok now w)) p"
    using pulled_disjoint [of "remote w" "files w" p _ "remote w" "files w"]
    by (auto simp: map_of_pull [of ok2] map_of_pull [of all_ok now w] map_add_def all_ok_def
             split: option.splits)
qed

text \<open>
  Claim C8. Whatever the two copies of the pull do (succeed or fail),
  \<^item> a path that exists before the pull exists after it, and a regular file stays a
    regular file: the pull removes nothing;
  \<^item> a path with no counterpart in the bucket is unchanged by the pull;
  \<^item> a second pull after a pull without failures leaves every path as the first pull left
    it, whether or not the transfers of the second pull succeed;
  \<^item> the pull does not change the bucket.
\<close>

theorem pull_is_additive:
  "(map_of (files w) p \<noteq> None \<longrightarrow> map_of (files (pull ok now w)) p \<noteq> None) \<and>
   (is_file (files w) p \<longrightarrow> is_file (files (pull ok now w)) p) \<and>
   (absent_remotely (remote w) p \<longrightarrow> map_of (files (pull ok now w)) p = map_of (files w) p) \<and>
   map_of (files (pull ok2 now2 (pull all_ok now w))) = map_of (files (pull all_ok now w)) \<and>
   remote (pull ok now w) = remote w"
  using pull_keeps [of w p ok now] pull_keeps_files [of w p ok now] pull_absent [of w p ok now]
    pull_twice [of ok2 now2 now w]
  by simp

theorem pull_is_additive_witness:
  "map_of (files pull_world) ''/root/clawd/local.md'' = Some (File 3 ''mine'') \<and>
   is_file (files pull_world) ''/root/clawd/local.md'' \<and>
   absent_remotely (remote pull_world) ''/root/clawd/local.md'' \<and>
   map_of (files (pull all_ok 9 pull_world)) ''/root/clawd/local.md'' = Some (File 3 ''mine'') \<and>
   is_file (files (pull all_ok 9 pull_world)) ''/root/clawd/local.md'' \<and>
   map_of (files (pull all_ok 9 pull_world)) ''/root/clawd/uploaded.md'' = Some (File 4 ''up'') \<and>
   map_of (files (pull only_rcat_ok 10 (pull all_ok 9 pull_world)))
     = map_of (files (pull all_ok 9 pull_world))"
proof -
  have a: "map_of (files pull_world) ''/root/clawd/local.md'' = Some (File 3 ''mine'')"
    "is_file (files pull_world) ''/root/clawd/local.md''"
    "absent_remotely (remote pull_world) ''/root/clawd/local.md''"
    by (simp_all add: pull_world_def is_file_def absent_remotely_def script_paths)
  have b: "map_of (files (pull all_ok 9 pull_world)) ''/root/clawd/uploaded.md'' = Some (File 4 ''up'')"
    by (simp add: map_of_pull pull_world_def is_dir_def all_ok_def script_paths downloads_def
        List.map_filter_simps excluded_def workspace_excludes_def rclone_glob_def)
  show ?thesis
    using a b pull_is_additive [of pull_world "''/root/clawd/local.md''" all_ok 9 only_rcat_ok 10]
    by simp
qed

subsection \<open>The mirror of the config root\<close>

lemma push_config_excluded:
  assumes "excluded config_excludes rel"
  shows "map_of (remote (push_config ok now w)) (''openclaw/'' @ rel)
           = map_of (remote w) (''openclaw/'' @ rel)"
proof (cases "ok (SyncUp (CONFIG_DIR @ ''/'') ''openclaw/'' config_excludes)")
  case True
  then have "remote (push_config ok now w)
      = sync_up (CONFIG_DIR @ ''/'') ''openclaw/'' config_excludes (files w) (remote w)"
    by (simp add: push_config_def remote_rclone_SyncUp)
  then show ?thesis
    by (simp only: sync_up_excluded [OF assms])
next
  case False
  then show ?thesis
    by (simp add: push_config_def remote_rclone_SyncUp)
qed

lemma push_config_outside:
  assumes "\<not> prefix ''openclaw/'' k"
  shows "map_of (remote (push_config ok now w)) k = map_of (remote w) k"
proof (cases "ok (SyncUp (CONFIG_DIR @ ''/'') ''openclaw/'' config_excludes)")
  case True
  then have "remote (push_config ok now w)
      = sync_up (CONFIG_DIR @ ''/'') ''openclaw/'' config_excludes (files w) (remote w)"
    by (simp add: push_config_def remote_rclone_SyncUp)
  then show ?thesis
    by (simp only: sync_up_outside [OF assms])
next
  case False
  then show ?thesis
    by (simp add: push_config_def remote_rclone_SyncUp)
qed

text \<open>
  Claim C9. The mirror of the config root (line 384), whether it succeeds or fails,
  \<^item> leaves every object below \<^verbatim>\<open>openclaw/workspace/\<close> and below
    \<^verbatim>\<open>openclaw/skills/\<close> as it was, and
  \<^item> leaves the object of every relative path that ends in \<^verbatim>\<open>.lock\<close>,
    \<^verbatim>\<open>.log\<close> or \<^verbatim>\<open>.tmp\<close> as it was: such a local file is not uploaded, and
    such an object is not deleted;
  \<^item> leaves every object outside \<^verbatim>\<open>openclaw/\<close> as it was.
\<close>

theorem config_mirror_frame:
  "(prefix ''openclaw/workspace/'' k \<or> prefix ''openclaw/skills/'' k \<longrightarrow>
      map_of (remote (push_config ok now w)) k = map_of (remote w) k) \<and>
   (suffix ''.lock'' rel \<or> suffix ''.log'' rel \<or> suffix ''.tmp'' rel \<longrightarrow>
      map_of (remote (push_config ok now w)) (''openclaw/'' @ rel)
        = map_of (remote w) (''openclaw/'' @ rel)) \<and>
   (\<not> prefix ''openclaw/'' k' \<longrightarrow>
      map_of (remote (push_config ok now w)) k' = map_of (remote w) k')"
proof (intro conjI impI)
  assume "\<not> prefix ''openclaw/'' k'"
  then show "map_of (remote (push_config ok now w)) k' = map_of (remote w) k'"
    by (rule push_config_outside)
next
  assume "prefix ''openclaw/workspace/'' k \<or> prefix ''openclaw/skills/'' k"
  then consider x where "k = ''openclaw/'' @ (''workspace/'' @ x)"
    | x where "k = ''openclaw/'' @ (''skills/'' @ x)"
    by (auto simp: prefix_def)
  then show "map_of (remote (push_config ok now w)) k = map_of (remote w) k"
  proof cases
    case 1
    show ?thesis
      unfolding 1 by (rule push_config_excluded) (rule excluded_subtrees)
  next
    case 2
    show ?thesis
      unfolding 2 by (rule push_config_excluded) (rule excluded_subtrees)
  qed
next
  assume "suffix ''.lock'' rel \<or> suffix ''.log'' rel \<or> suffix ''.tmp'' rel"
  then have "excluded config_excludes rel"
    by (rule excluded_temp_lock_log)
  then show "map_of (remote (push_config ok now w)) (''openclaw/'' @ rel)
        = map_of (remote w) (''openclaw/'' @ rel)"
    by (rule push_config_excluded)
qed

theorem config_mirror_frame_witness:
  "prefix ''openclaw/workspace/'' ''openclaw/workspace/a.md'' \<and>
   suffix ''.log'' ''gateway.log'' \<and>
   \<not> prefix ''openclaw/'' ''workspace/legacy.md'' \<and>
   map_of (remote (push_config all_ok 9 config_world)) ''workspace/legacy.md'' = Some (1, ''l'') \<and>
   map_of (files config_world) ''/root/.openclaw/gateway.log'' = Some (File 6 ''log'') \<and>
   map_of (remote (push_config all_ok 9 config_world)) ''openclaw/workspace/a.md''
     = Some (1, ''a'') \<and>
   map_of (remote (push_config all_ok 9 config_world)) ''openclaw/gateway.log'' = None"
proof -
  have a: "prefix ''openclaw/workspace/'' ''openclaw/workspace/a.md''"
    by simp
  have b: "suffix ''.log'' ''gateway.log''"
    using suffix_def [of "''.log''" "''gateway.log''"] by simp
  have c: "map_of (remote config_world) ''openclaw/workspace/a.md'' = Some (1, ''a'')"
    "map_of (remote config_world) ''openclaw/gateway.log'' = None"
    "map_of (remote config_world) ''workspace/legacy.md'' = Some (1, ''l'')"
    "map_of (files config_world) ''/root/.openclaw/gateway.log'' = Some (File 6 ''log'')"
    by (simp_all add: config_world_def)
  show ?thesis
    using a b c
      config_mirror_frame [of "''openclaw/workspace/a.md''" all_ok 9 config_world "''gateway.log''"
        "''workspace/legacy.md''"]
    by simp
qed

subsection \<open>Events and state along one iteration\<close>

lemma events_pull:
  "events (pull ok now w) =
     events w
     @ (if is_dir (files w) WORKSPACE_DIR then [Rclone pull_workspace (ok pull_workspace)] else [])
     @ (if is_dir (files w) SKILLS_DIR then [Rclone pull_skills (ok pull_skills)] else [])"
  by (simp add: pull_def Let_def)

lemma files_push_config [simp]: "files (push_config ok now w) = files w"
  by (simp add: push_config_def)

lemma events_push_config [simp]:
  "events (push_config ok now w) = events w @ [Rclone mirror_config (ok mirror_config)]"
  by (simp add: push_config_def)

lemma events_push:
  "events (push ok now stamp w) =
     events w
     @ [Rclone mirror_config (ok mirror_config)]
     @ (if is_dir (files w) WORKSPACE_DIR then [Rclone mirror_workspace (ok mirror_workspace)] else [])
     @ (if is_dir (files w) SKILLS_DIR then [Rclone mirror_skills (ok mirror_skills)] else [])
     @ [Write LAST_SYNC_FILE, Touch MARKER]"
  by (simp add: push_def Let_def)

lemma files_push:
  "files (push ok now stamp w)
     = touch now MARKER (write_file now LAST_SYNC_FILE (stamp @ [newline]) (files w))"
  by (simp add: push_def Let_def)

lemma remote_detect [simp]: "remote (detect now w) = remote w"
  by (simp add: detect_def Let_def)

lemma files_detect:
  "files (detect now w) = write_file now CHANGED (unlines (changed_files (files w))) (files w)"
  by (simp add: detect_def Let_def)

lemma is_dir_detect [simp]: "is_dir (files (detect now w)) p = is_dir (files w) p"
  by (simp add: files_detect)

lemma events_detect:
  "events (detect now w) = events w @ [Detect (COUNT (files (detect now w)))]"
  by (simp add: detect_def Let_def)

lemma COUNT_detect:
  "COUNT (files (detect now w)) = 0 \<longleftrightarrow> changed_files (files w) = [] \<or> is_dir (files w) CHANGED"
  by (simp add: COUNT_def files_detect read_write_file wc_l_unlines)

lemma events_cycle:
  "events (cycle ok now stamp w) =
     events w
     @ (if is_dir (files w) WORKSPACE_DIR then [Rclone pull_workspace (ok pull_workspace)] else [])
     @ (if is_dir (files w) SKILLS_DIR then [Rclone pull_skills (ok pull_skills)] else [])
     @ [Detect (COUNT (files (detect now (pull ok now w))))]
     @ (if 0 < COUNT (files (detect now (pull ok now w)))
        then [Rclone mirror_config (ok mirror_config)]
             @ (if is_dir (files w) WORKSPACE_DIR
                then [Rclone mirror_workspace (ok mirror_workspace)] else [])
             @ (if is_dir (files w) SKILLS_DIR
                then [Rclone mirror_skills (ok mirror_skills)] else [])
             @ [Write LAST_SYNC_FILE, Touch MARKER]
        else [])"
  by (simp add: cycle_def Let_def events_push events_detect events_pull)

lemma cycle_skip:
  "COUNT (files (detect now (pull ok now w))) = 0 \<Longrightarrow>
   cycle ok now stamp w = detect now (pull ok now w)"
  by (simp add: cycle_def Let_def)

lemma cycle_push:
  "0 < COUNT (files (detect now (pull ok now w))) \<Longrightarrow>
   cycle ok now stamp w = push ok now stamp (detect now (pull ok now w))"
  by (simp add: cycle_def Let_def)

lemma pull_outside_trees:
  "strip_prefix (WORKSPACE_DIR @ ''/'') p = None \<Longrightarrow>
   map_of (files (pull ok now w)) p = map_of (files w) p"
proof (rule pull_absent)
  assume a: "strip_prefix (WORKSPACE_DIR @ ''/'') p = None"
  then have "strip_prefix (SKILLS_DIR @ ''/'') p = None"
    by (auto simp: strip_prefix_None script_paths prefix_def)
  with a show "absent_remotely (remote w) p"
    by (simp add: absent_remotely_def)
qed

lemma marker_after_skip:
  assumes "COUNT (files (detect now (pull ok now w))) = 0"
  shows "map_of (files (cycle ok now stamp w)) MARKER = map_of (files w) MARKER"
    and "map_of (files (cycle ok now stamp w)) LAST_SYNC_FILE = map_of (files w) LAST_SYNC_FILE"
    and "remote (cycle ok now stamp w) = remote w"
  using assms
  by (simp_all add: cycle_skip files_detect map_of_write_file_other pull_outside_trees script_paths)

lemma marker_after_push:
  assumes "0 < COUNT (files (detect now (pull ok now w)))"
  shows "map_option mtime_of (map_of (files (cycle ok now stamp w)) MARKER) = Some now"
    and "read_file (files (cycle ok now stamp w)) LAST_SYNC_FILE
           = (if is_dir (files w) LAST_SYNC_FILE then None else Some (stamp @ [newline]))"
proof -
  show "map_option mtime_of (map_of (files (cycle ok now stamp w)) MARKER) = Some now"
    using assms by (simp add: cycle_push files_push mtime_touch)
  have "read_file (touch now MARKER l) LAST_SYNC_FILE = read_file l LAST_SYNC_FILE" for l
    by (simp add: read_file_def map_of_touch_other script_paths)
  then show "read_file (files (cycle ok now stamp w)) LAST_SYNC_FILE
           = (if is_dir (files w) LAST_SYNC_FILE then None else Some (stamp @ [newline]))"
    using assms by (simp add: cycle_push files_push read_write_file)
qed

subsection \<open>Change detection\<close>

lemma in_find_newer:
  "rel \<in> set (find_newer l start ref not_paths) \<longleftrightarrow>
     (\<exists>n. map_of l ref = Some n \<and>
        (is_dir l start \<and>
           (\<exists>m c. (start @ ''/'' @ rel, File m c) \<in> set l \<and> mtime_of n < m \<and>
              \<not> list_ex (\<lambda>pat. fnmatch pat (start @ ''/'' @ rel)) not_paths) \<or>
         rel = [] \<and> (\<exists>m c. map_of l start = Some (File m c) \<and> mtime_of n < m) \<and>
           \<not> list_ex (\<lambda>pat. fnmatch pat start) not_paths))"
proof (cases "map_of l ref")
  case None
  then show ?thesis by (simp add: find_newer_def)
next
  case (Some n)
  show ?thesis
  proof (cases "map_of l start")
    case None
    with Some show ?thesis by (simp add: find_newer_def is_dir_def)
  next
    case start: (Some e)
    show ?thesis
    proof (cases e)
      case (File m c)
      with Some start show ?thesis by (auto simp: find_newer_def is_dir_def)
    next
      case (Dir d)
      let ?f = "\<lambda>(p, e). case e of Dir m \<Rightarrow> None
                  | File m c \<Rightarrow>
                      (case strip_prefix (start @ ''/'') p of None \<Rightarrow> None
                       | Some rel \<Rightarrow>
                           if mtime_of n < m \<and> \<not> list_ex (\<lambda>pat. fnmatch pat p) not_paths
                           then Some rel else None)"
      have f: "?f (p, e) = Some rel \<longleftrightarrow>
                 (\<exists>m c. e = File m c \<and> p = start @ ''/'' @ rel \<and> mtime_of n < m \<and>
                    \<not> list_ex (\<lambda>pat. fnmatch pat p) not_paths)" for p e
      proof (cases e)
        case (Dir m)
        then show ?thesis by simp
      next
        case (File m c)
        have sp: "strip_prefix (start @ ''/'') p = Some r \<longleftrightarrow> p = start @ ''/'' @ r" for r
          by (simp add: strip_prefix_Some)
        show ?thesis
        proof (cases "strip_prefix (start @ ''/'') p")
          case None
          then have "p \<noteq> start @ ''/'' @ rel"
            using sp [of rel] by simp
          with None File show ?thesis by simp
        next
          case (Some r)
          then have "p = start @ ''/'' @ r"
            using sp [of r] by simp
          with Some File show ?thesis by auto
        qed
      qed
      have d: "is_dir l start" "\<And>m c. map_of l start \<noteq> Some (File m c)"
        using start Dir by (simp_all add: is_dir_def)
      have "rel \<in> set (find_newer l start ref not_paths) \<longleftrightarrow> (\<exists>x \<in> set l. ?f x = Some rel)"
        using Some start Dir by (simp add: find_newer_def in_map_filter)
      also have "\<dots> \<longleftrightarrow> (\<exists>p e. (p, e) \<in> set l \<and> ?f (p, e) = Some rel)"
        unfolding Bex_def split_paired_Ex ..
      also have "\<dots> \<longleftrightarrow> (\<exists>m c. (start @ ''/'' @ rel, File m c) \<in> set l \<and> mtime_of n < m \<and>
                    \<not> list_ex (\<lambda>pat. fnmatch pat (start @ ''/'' @ rel)) not_paths)"
        unfolding f by blast
      finally show ?thesis
        using Some d by simp
    qed
  qed
qed

lemma workspace_root_passes:
  "\<not> sublist ''/node_modules/'' WORKSPACE_DIR" "\<not> sublist ''/.git/'' WORKSPACE_DIR"
  by (simp_all add: sublist_Cons_right script_paths)

lemma dirs_workspace_change_world:
  "is_dir (files workspace_change_world) WORKSPACE_DIR"
  "is_dir (files workspace_change_world) SKILLS_DIR"
  "\<not> is_dir (files workspace_change_world) CHANGED"
  "\<not> is_dir (files workspace_change_world) LAST_SYNC_FILE"
  "remote workspace_change_world = []"
  "events workspace_change_world = []"
  by (simp_all add: workspace_change_world_def is_dir_def script_paths)

text \<open>
  Claim C5 says that the ChangeSet leaves out lock, log and temp files and version-control
  metadata. The search below the config root has no \<^verbatim>\<open>-not -path\<close> at all, and the
  search below the workspace only leaves out \<^verbatim>\<open>*/node_modules/*\<close> and
  \<^verbatim>\<open>*/.git/*\<close>: with a log file and a file of a git directory below the config root,
  both newer than the marker, the ChangeSet lists both, though the exclusion globs of the
  config mirror match them.
\<close>

theorem log_and_git_in_changeset:
  "changed_files log_change_files = [''gateway.log'', ''.git/HEAD''] \<and>
   rclone_glob ''*.log'' ''gateway.log'' \<and>
   rclone_glob ''.git/**'' ''.git/HEAD''"
  by (simp add: changed_files_def find_newer_def log_change_files_def is_dir_def
      List.map_filter_simps script_paths rclone_glob_def)

text \<open>
  Claim C5, as amended: the ChangeSet of a tick is exactly
  \<^item> the regular files below the config root whose modification time is strictly later
    than the marker's, with no exclusion, and
  \<^item> the regular files below the workspace directory (the skills directory included)
    whose modification time is strictly later than the marker's and whose path contains
    neither \<^verbatim>\<open>/node_modules/\<close> nor \<^verbatim>\<open>/.git/\<close>,
  each as a path relative to its tree, and
  \<^item> the empty relative path for a root (the config root, the workspace) that is itself
    a regular file with a modification time strictly later than the marker's.
  Lock, log and temp files are not excluded from change detection. With no marker file
  the ChangeSet is empty.
\<close>

theorem changed_files_exact:
  "rel \<in> set (changed_files l) \<longleftrightarrow>
     (\<exists>n. map_of l MARKER = Some n \<and>
        (is_dir l CONFIG_DIR \<and>
           (\<exists>m c. (CONFIG_DIR @ ''/'' @ rel, File m c) \<in> set l \<and> mtime_of n < m) \<or>
         rel = [] \<and> (\<exists>m c. map_of l CONFIG_DIR = Some (File m c) \<and> mtime_of n < m) \<or>
         is_dir l WORKSPACE_DIR \<and>
           (\<exists>m c. (WORKSPACE_DIR @ ''/'' @ rel, File m c) \<in> set l \<and> mtime_of n < m) \<and>
           \<not> sublist ''/node_modules/'' (WORKSPACE_DIR @ ''/'' @ rel) \<and>
           \<not> sublist ''/.git/'' (WORKSPACE_DIR @ ''/'' @ rel) \<or>
         rel = [] \<and> (\<exists>m c. map_of l WORKSPACE_DIR = Some (File m c) \<and> mtime_of n < m)))"
  unfolding changed_files_def set_append Un_iff in_find_newer
  using workspace_root_passes
  by (simp only: list_ex_Nil_iff list_ex_Cons_iff fnmatch_git fnmatch_node_modules) blast

theorem changed_files_exact_witness:
  "''notes.md'' \<in> set (changed_files (files workspace_change_world)) \<and>
   map_of (files workspace_change_world) MARKER = Some (File 3 []) \<and>
   is_dir (files workspace_change_world) WORKSPACE_DIR \<and>
   (WORKSPACE_DIR @ ''/'' @ ''notes.md'', File 5 ''x'') \<in> set (files workspace_change_world) \<and>
   mtime_of (File 3 []) < 5 \<and>
   \<not> sublist ''/node_modules/'' (WORKSPACE_DIR @ ''/'' @ ''notes.md'') \<and>
   \<not> sublist ''/.git/'' (WORKSPACE_DIR @ ''/'' @ ''notes.md'') \<and>
   map_of file_root_files MARKER = Some (File 3 []) \<and>
   map_of file_root_files WORKSPACE_DIR = Some (File 5 ''not a directory'') \<and>
   [] \<in> set (changed_files file_root_files)"
proof -
  have a: "map_of (files workspace_change_world) MARKER = Some (File 3 [])"
    "(WORKSPACE_DIR @ ''/'' @ ''notes.md'', File 5 ''x'') \<in> set (files workspace_change_world)"
    "mtime_of (File 3 []) < 5"
    by (simp_all add: workspace_change_world_def script_paths)
  have b: "\<not> sublist ''/node_modules/'' (WORKSPACE_DIR @ ''/'' @ ''notes.md'')"
    "\<not> sublist ''/.git/'' (WORKSPACE_DIR @ ''/'' @ ''notes.md'')"
    by (simp_all add: sublist_Cons_right script_paths)
  have c: "map_of file_root_files MARKER = Some (File 3 [])"
    "map_of file_root_files WORKSPACE_DIR = Some (File 5 ''not a directory'')"
    by (simp_all add: file_root_files_def script_paths)
  have 1: "''notes.md'' \<in> set (changed_files (files workspace_change_world))"
    using a b dirs_workspace_change_world(1)
      changed_files_exact [of "''notes.md''" "files workspace_change_world"]
    by blast
  have 2: "[] \<in> set (changed_files file_root_files)"
    using a(3) c changed_files_exact [of "[]" file_root_files]
    by blast
  show ?thesis
    using a b c dirs_workspace_change_world(1) 1 2 by blast
qed

lemma changed_workspace_change_world:
  "changed_files (files workspace_change_world) = [''notes.md'']"
  "find_newer (files workspace_change_world) CONFIG_DIR MARKER [] = []"
  "find_newer (files workspace_change_world) SKILLS_DIR MARKER [] = []"
  by (simp_all add: changed_files_def find_newer_def workspace_change_world_def is_dir_def
      List.map_filter_simps script_paths fnmatch_def)

subsection \<open>When the push runs\<close>

lemma sync_loop_next:
  "sync_loop start (ticks @ [(ok, now, stamp)]) w = cycle ok now stamp (sync_loop start ticks w)"
  by (simp add: sync_loop_def)

lemma filter_is_mirror_cycle:
  "filter is_mirror (events (cycle ok now stamp w)) =
     filter is_mirror (events w)
     @ (if 0 < COUNT (files (detect now (pull ok now w)))
        then [Rclone mirror_config (ok mirror_config)]
             @ (if is_dir (files w) WORKSPACE_DIR
                then [Rclone mirror_workspace (ok mirror_workspace)] else [])
             @ (if is_dir (files w) SKILLS_DIR
                then [Rclone mirror_skills (ok mirror_skills)] else [])
        else [])"
  by (simp add: events_cycle)

lemma pull_nothing_remote:
  "remote w = [] \<Longrightarrow> files (pull ok now w) = files w"
  by (simp add: pull_def Let_def files_rclone_CopyDown copy_down_def downloads_def
      List.map_filter_simps)

lemma COUNT_workspace_change_world:
  "0 < COUNT (files (detect now (pull ok now' workspace_change_world)))"
  using COUNT_detect [of now "pull ok now' workspace_change_world"]
  by (simp add: pull_nothing_remote dirs_workspace_change_world changed_workspace_change_world)

text \<open>
  Claim C4 says that a tree with an empty ChangeSet of its own is not mirrored unless the
  config root changed. The loop has one test before the push, the line count of both searches together.
  In the iteration below only a file of the workspace is newer than the marker: the
  searches below the config root and below the skills directory find nothing, and the
  config root and the skills tree are mirrored all the same.
\<close>

theorem unchanged_trees_mirrored:
  "find_newer (files (pull all_ok 9 workspace_change_world)) CONFIG_DIR MARKER [] = [] \<and>
   find_newer (files (pull all_ok 9 workspace_change_world)) SKILLS_DIR MARKER [] = [] \<and>
   filter is_mirror (events (cycle all_ok 9 ''T'' workspace_change_world))
     = [Rclone mirror_config True, Rclone mirror_workspace True, Rclone mirror_skills True]"
  by (simp add: filter_is_mirror_cycle COUNT_workspace_change_world pull_nothing_remote
      dirs_workspace_change_world changed_workspace_change_world all_ok_def)

text \<open>
  Claim C4, as amended: in every iteration a mirror is attempted only if the ChangeSet of
  the iteration (the files found below the config root and below the workspace directory,
  which holds the skills directory) is non-empty; and when it is non-empty (and the file
  of changes could be written), the config root is mirrored, then the workspace when its
  directory exists, then the skills when their directory exists, whichever tree the
  changes are in.
\<close>

theorem mirrors_follow_combined_changes:
  "(filter is_mirror (events (cycle ok now stamp w)) \<noteq> filter is_mirror (events w) \<longrightarrow>
      changed_files (files (pull ok now w)) \<noteq> []) \<and>
   (changed_files (files (pull ok now w)) \<noteq> [] \<and> \<not> is_dir (files w) CHANGED \<longrightarrow>
      filter is_mirror (events (cycle ok now stamp w)) =
        filter is_mirror (events w)
        @ [Rclone mirror_config (ok mirror_config)]
        @ (if is_dir (files w) WORKSPACE_DIR
           then [Rclone mirror_workspace (ok mirror_workspace)] else [])
        @ (if is_dir (files w) SKILLS_DIR
           then [Rclone mirror_skills (ok mirror_skills)] else []))"
  using COUNT_detect [of now "pull ok now w"]
  by (auto simp: filter_is_mirror_cycle)

theorem mirrors_follow_combined_changes_witness:
  "filter is_mirror (events (cycle all_ok 9 ''T'' workspace_change_world))
     \<noteq> filter is_mirror (events workspace_change_world) \<and>
   changed_files (files (pull all_ok 9 workspace_change_world)) = [''notes.md''] \<and>
   \<not> is_dir (files workspace_change_world) CHANGED \<and>
   filter is_mirror (events (cycle all_ok 9 ''T'' workspace_change_world))
     = [Rclone mirror_config True, Rclone mirror_workspace True, Rclone mirror_skills True]"
proof -
  have a: "changed_files (files (pull all_ok 9 workspace_change_world)) \<noteq> []"
    by (simp add: pull_nothing_remote dirs_workspace_change_world changed_workspace_change_world)
  show ?thesis
    using a dirs_workspace_change_world
      mirrors_follow_combined_changes [of all_ok 9 "''T''" workspace_change_world]
    by (simp add: pull_nothing_remote changed_workspace_change_world all_ok_def)
qed

text \<open>
  Claim C6: an iteration whose ChangeSet, computed after the pull, is empty ends with the
  detection: its events are the pulls and a detection of zero changes, it issues no
  mirror, and it leaves the bucket, the marker and the record of the last sync as they
  were.
\<close>

theorem empty_changeset_skips_push:
  assumes "changed_files (files (pull ok now w)) = []"
  shows "cycle ok now stamp w = detect now (pull ok now w) \<and>
         events (cycle ok now stamp w) =
           events w
           @ (if is_dir (files w) WORKSPACE_DIR
              then [Rclone pull_workspace (ok pull_workspace)] else [])
           @ (if is_dir (files w) SKILLS_DIR then [Rclone pull_skills (ok pull_skills)] else [])
           @ [Detect 0] \<and>
         filter is_mirror (events (cycle ok now stamp w)) = filter is_mirror (events w) \<and>
         remote (cycle ok now stamp w) = remote w \<and>
         map_of (files (cycle ok now stamp w)) MARKER = map_of (files w) MARKER \<and>
         map_of (files (cycle ok now stamp w)) LAST_SYNC_FILE = map_of (files w) LAST_SYNC_FILE"
proof -
  have c: "COUNT (files (detect now (pull ok now w))) = 0"
    using assms by (simp add: COUNT_detect)
  have e: "events (cycle ok now stamp w) =
           events w
           @ (if is_dir (files w) WORKSPACE_DIR
              then [Rclone pull_workspace (ok pull_workspace)] else [])
           @ (if is_dir (files w) SKILLS_DIR then [Rclone pull_skills (ok pull_skills)] else [])
           @ [Detect 0]"
    by (simp add: events_cycle c)
  have m: "filter is_mirror (events (cycle ok now stamp w)) = filter is_mirror (events w)"
    by (simp add: filter_is_mirror_cycle c)
  show ?thesis
    by (intro conjI) (rule cycle_skip [OF c] e m marker_after_skip [OF c])+
qed

theorem empty_changeset_skips_push_witness:
  "changed_files (files (pull all_ok 9 idle_world)) = [] \<and>
   events (cycle all_ok 9 ''T'' idle_world) = [Rclone pull_workspace True, Detect 0] \<and>
   filter is_mirror (events (cycle all_ok 9 ''T'' idle_world)) = [] \<and>
   remote (cycle all_ok 9 ''T'' idle_world) = [] \<and>
   map_of (files (cycle all_ok 9 ''T'' idle_world)) MARKER = Some (File 7 []) \<and>
   map_of (files (cycle all_ok 9 ''T'' idle_world)) LAST_SYNC_FILE = None"
proof -
  have r: "remote idle_world = []" "events idle_world = []"
    by (simp_all add: idle_world_def)
  have a: "changed_files (files (pull all_ok 9 idle_world)) = []"
    unfolding pull_nothing_remote [OF r(1)]
    by (simp add: changed_files_def find_newer_def idle_world_def is_dir_def
        List.map_filter_simps script_paths fnmatch_def)
  have d: "is_dir (files idle_world) WORKSPACE_DIR" "\<not> is_dir (files idle_world) SKILLS_DIR"
    "map_of (files idle_world) MARKER = Some (File 7 [])"
    "map_of (files idle_world) LAST_SYNC_FILE = None"
    by (simp_all add: idle_world_def is_dir_def script_paths)
  show ?thesis
    using a r d empty_changeset_skips_push [OF a, of "''T''", THEN conjunct2]
    by (simp add: all_ok_def)
qed

text \<open>
  Claim C7: for every oracle, the events of an iteration are the pull of the workspace
  and the pull of the skills (each when its directory exists), then the detection, and,
  when the count is positive, the mirror of the config root, the mirror of the workspace
  (when present), the mirror of the skills (when present), the write of the record of the
  last sync and the touch of the marker, in this order. The count is that of the files
  found after the pull. After such a push, whatever the
  exit statuses of the mirrors, the marker has the modification time of the iteration
  and the record holds its time stamp.
\<close>

theorem cycle_order:
  "events (cycle ok now stamp w) =
     events w
     @ (if is_dir (files w) WORKSPACE_DIR then [Rclone pull_workspace (ok pull_workspace)] else [])
     @ (if is_dir (files w) SKILLS_DIR then [Rclone pull_skills (ok pull_skills)] else [])
     @ [Detect (COUNT (files (detect now (pull ok now w))))]
     @ (if 0 < COUNT (files (detect now (pull ok now w)))
        then [Rclone mirror_config (ok mirror_config)]
             @ (if is_dir (files w) WORKSPACE_DIR
                then [Rclone mirror_workspace (ok mirror_workspace)] else [])
             @ (if is_dir (files w) SKILLS_DIR
                then [Rclone mirror_skills (ok mirror_skills)] else [])
             @ [Write LAST_SYNC_FILE, Touch MARKER]
        else []) \<and>
   (COUNT (files (detect now (pull ok now w))) = 0) =
     (changed_files (files (pull ok now w)) = [] \<or> is_dir (files w) CHANGED) \<and>
   (0 < COUNT (files (detect now (pull ok now w))) \<longrightarrow>
      map_option mtime_of (map_of (files (cycle ok now stamp w)) MARKER) = Some now \<and>
      read_file (files (cycle ok now stamp w)) LAST_SYNC_FILE
        = (if is_dir (files w) LAST_SYNC_FILE then None else Some (stamp @ [newline])))"
  using marker_after_push [of now ok w stamp] COUNT_detect [of now "pull ok now w"]
  by (simp add: events_cycle)

theorem cycle_order_witness:
  "0 < COUNT (files (detect 9 (pull only_rcat_ok 9 workspace_change_world))) \<and>
   changed_files (files (pull only_rcat_ok 9 workspace_change_world)) = [''notes.md''] \<and>
   events (cycle only_rcat_ok 9 ''T'' workspace_change_world) =
     [Rclone pull_workspace False, Rclone pull_skills False, 
      Detect (COUNT (files (detect 9 (pull only_rcat_ok 9 workspace_change_world)))),
      Rclone mirror_config False, Rclone mirror_workspace False, Rclone mirror_skills False,
      Write LAST_SYNC_FILE, Touch MARKER] \<and>
   map_option mtime_of (map_of (files (cycle only_rcat_ok 9 ''T'' workspace_change_world)) MARKER)
     = Some 9 \<and>
   read_file (files (cycle only_rcat_ok 9 ''T'' workspace_change_world)) LAST_SYNC_FILE
     = Some (''T'' @ [newline])"
  using COUNT_workspace_change_world [of 9 only_rcat_ok 9] dirs_workspace_change_world
    cycle_order [of only_rcat_ok 9 "''T''" workspace_change_world]
  by (simp add: pull_nothing_remote changed_workspace_change_world)

end
